theory Spec2Isabelle
  imports Complex_Main
begin

section \<open>Data model (types.ts)\<close>

text \<open>
  Numbers. The seconds of a stop-time and the current seconds are reals. An optional
  numeric field (\<open>arrival_seconds?: number\<close>) is a \<open>real option\<close>; the source reads such a
  field only through \<open>x || 0\<close>, which also sends NaN and \<open>0\<close> to \<open>0\<close>, so \<open>None\<close> stands
  for every falsy non-number. A coordinate comes from \<open>parseFloat\<close>, which yields NaN on a
  blank or non-numeric field, and NaN is absorbing in the arithmetic and the trigonometry
  of the simulator: coordinates, and the latitude, longitude and bearing computed from
  them, are of type \<open>jsnum\<close>, a real or NaN. The arithmetic is exact: the rounding, the
  overflow, the infinities and the signed zero of IEEE doubles are not modelled.

  Strings. A \<open>string\<close> is the list of the UTF-8 bytes of the JavaScript string.

  Maps. A JavaScript \<open>Map<string, V>\<close> is an association list in insertion order; its
  keys are distinct (\<open>wf_map\<close>). \<open>get\<close> is \<open>map_get\<close>, \<open>forEach\<close> runs over the list in
  order.
\<close>

datatype jsnum = Num real | NaN

definition lift1 :: "(real \<Rightarrow> real) \<Rightarrow> jsnum \<Rightarrow> jsnum" where
  "lift1 f a = (case a of Num x \<Rightarrow> Num (f x) | NaN \<Rightarrow> NaN)"

definition lift2 :: "(real \<Rightarrow> real \<Rightarrow> real) \<Rightarrow> jsnum \<Rightarrow> jsnum \<Rightarrow> jsnum" where
  "lift2 f a b =
     (case a of Num x \<Rightarrow> (case b of Num y \<Rightarrow> Num (f x y) | NaN \<Rightarrow> NaN) | NaN \<Rightarrow> NaN)"

type_synonym 'v jsmap = "(string \<times> 'v) list"

definition map_get :: "'v jsmap \<Rightarrow> string \<Rightarrow> 'v option" where
  "map_get m k = map_of m k"

definition wf_map :: "'v jsmap \<Rightarrow> bool" where
  "wf_map m = distinct (map fst m)"

definition map_values :: "'v jsmap \<Rightarrow> 'v list" where
  "map_values m = map snd m"

record Stop =
  stop_id :: string
  stop_name :: string
  stop_lat :: jsnum
  stop_lon :: jsnum

record Route =
  route_id :: string
  route_short_name :: string
  route_long_name :: string
  route_type :: string
  route_color :: "string option"
  route_text_color :: "string option"

record Trip =
  route_id :: string
  service_id :: string
  trip_id :: string
  trip_headsign :: string
  trip_short_name :: "string option"
  direction_id :: "string option"

record StopTime =
  trip_id :: string
  arrival_time :: string
  departure_time :: string
  stop_id :: string
  stop_sequence :: real
  arrival_seconds :: "real option"
  departure_seconds :: "real option"

record Calendar =
  service_id :: string
  monday :: string
  tuesday :: string
  wednesday :: string
  thursday :: string
  friday :: string
  saturday :: string
  sunday :: string
  start_date :: string
  end_date :: string

record CalendarDate =
  service_id :: string
  date :: string
  exception_type :: string

record GTFSData =
  stops :: "Stop jsmap"
  routes :: "Route jsmap"
  trips :: "Trip jsmap"
  stopTimes :: "StopTime list jsmap"
  calendar :: "Calendar jsmap"

text \<open>
  \<open>getActiveTripsForToday\<close> tests \<open>if (gtfs.calendarDates)\<close> before it reads the table,
  so the field is optional in the model although the interface declares it.
\<close>

record ExtendedGTFSData = GTFSData +
  calendarDates :: "CalendarDate list jsmap option"

datatype Status = MOVING | AT_STOP | SCHEDULED | ENDED

record TrainPosition =
  trip_id :: string
  lat :: jsnum
  lng :: jsnum
  bearing :: jsnum
  nextStop :: "Stop option"
  prevStop :: "Stop option"
  route :: "Route option"
  trip :: "Trip option"
  status :: Status

text \<open>
  Reading a property of \<open>undefined\<close> throws a \<open>TypeError\<close>; an array read out of range
  yields \<open>undefined\<close>. Both are written out, so that a fault of the source is a value.
\<close>

datatype error = TypeError

definition index :: "'a list \<Rightarrow> nat \<Rightarrow> 'a option" where
  "index xs i = (if i < length xs then Some (xs ! i) else None)"

definition orZero :: "real option \<Rightarrow> real" where
  "orZero x = (case x of None \<Rightarrow> 0 | Some v \<Rightarrow> (if v = 0 then 0 else v))"

definition orEmpty :: "string option \<Rightarrow> string" where
  "orEmpty x = (case x of None \<Rightarrow> [] | Some s \<Rightarrow> s)"

section \<open>Position simulator (services/trainSimulator.ts)\<close>

text \<open>
  The operators \<open>+\<close>, \<open>-\<close> and \<open>*\<close> and the functions \<open>Math.sin\<close> and \<open>Math.cos\<close> on
  numbers that may be NaN.
\<close>

definition jadd :: "jsnum \<Rightarrow> jsnum \<Rightarrow> jsnum" where
  "jadd a b = lift2 (\<lambda>x y. x + y) a b"

definition jsub :: "jsnum \<Rightarrow> jsnum \<Rightarrow> jsnum" where
  "jsub a b = lift2 (\<lambda>x y. x - y) a b"

definition jmul :: "jsnum \<Rightarrow> jsnum \<Rightarrow> jsnum" where
  "jmul a b = lift2 (\<lambda>x y. x * y) a b"

definition jsin :: "jsnum \<Rightarrow> jsnum" where
  "jsin a = lift1 sin a"

definition jcos :: "jsnum \<Rightarrow> jsnum" where
  "jcos a = lift1 cos a"

definition interpolate :: "jsnum \<Rightarrow> jsnum \<Rightarrow> jsnum \<Rightarrow> jsnum" where
  "interpolate start end fraction = jadd start (jmul (jsub end start) fraction)"

text \<open>
  \<open>Math.atan2\<close> on the reals: the angle of the point \<open>(x, y)\<close> in \<open>(-\<pi>, \<pi>]\<close>, and \<open>0\<close> at
  the origin. The remainder \<open>a % b\<close> of JavaScript truncates the quotient towards zero,
  so it has the sign of \<open>a\<close>; it is NaN when \<open>b\<close> is \<open>0\<close>.
\<close>

definition atan2 :: "real \<Rightarrow> real \<Rightarrow> real" where
  "atan2 y x =
     (if 0 < x then arctan (y / x)
      else if x < 0 \<and> 0 \<le> y then arctan (y / x) + pi
      else if x < 0 then arctan (y / x) - pi
      else if 0 < y then pi / 2
      else if y < 0 then - (pi / 2)
      else 0)"

definition jatan2 :: "jsnum \<Rightarrow> jsnum \<Rightarrow> jsnum" where
  "jatan2 y x = lift2 atan2 y x"

definition trunc :: "real \<Rightarrow> int" where
  "trunc q = (if 0 \<le> q then \<lfloor>q\<rfloor> else \<lceil>q\<rceil>)"

definition js_rem :: "real \<Rightarrow> real \<Rightarrow> real" where
  "js_rem a b = a - b * of_int (trunc (a / b))"

definition jrem :: "jsnum \<Rightarrow> jsnum \<Rightarrow> jsnum" where
  "jrem a b =
     (case a of
        NaN \<Rightarrow> NaN
      | Num x \<Rightarrow> (case b of NaN \<Rightarrow> NaN | Num y \<Rightarrow> (if y = 0 then NaN else Num (js_rem x y))))"

definition toRad :: "jsnum \<Rightarrow> jsnum" where
  "toRad deg = lift1 (\<lambda>d. d * pi / 180) deg"

definition toDeg :: "jsnum \<Rightarrow> jsnum" where
  "toDeg rad = lift1 (\<lambda>r. r * 180 / pi) rad"

definition getBearing :: "jsnum \<Rightarrow> jsnum \<Rightarrow> jsnum \<Rightarrow> jsnum \<Rightarrow> jsnum" where
  "getBearing lat1 lon1 lat2 lon2 =
     (let dLon = toRad (jsub lon2 lon1);
          lat1Rad = toRad lat1;
          lat2Rad = toRad lat2;
          y = jmul (jsin dLon) (jcos lat2Rad);
          x = jsub (jmul (jcos lat1Rad) (jsin lat2Rad))
                   (jmul (jmul (jsin lat1Rad) (jcos lat2Rad)) (jcos dLon))
      in jrem (jadd (toDeg (jatan2 y x)) (Num 360)) (Num 360))"

text \<open>The two tests of the scan, on a pair of consecutive stop-times.\<close>

definition atStopCase :: "real \<Rightarrow> StopTime \<Rightarrow> bool" where
  "atStopCase currentSeconds current =
     (currentSeconds \<ge> orZero (arrival_seconds current) \<and>
      currentSeconds \<le> orZero (departure_seconds current))"

definition movingCase :: "real \<Rightarrow> StopTime \<Rightarrow> StopTime \<Rightarrow> bool" where
  "movingCase currentSeconds current next =
     (currentSeconds > orZero (departure_seconds current) \<and>
      currentSeconds < orZero (arrival_seconds next))"

definition tripRoute :: "'a GTFSData_scheme \<Rightarrow> string \<Rightarrow> Route option" where
  "tripRoute gtfs tripId =
     map_get (routes gtfs) (orEmpty (map_option Trip.route_id (map_get (trips gtfs) tripId)))"

definition atStopPosition ::
  "'a GTFSData_scheme \<Rightarrow> string \<Rightarrow> StopTime \<Rightarrow> StopTime \<Rightarrow> Stop \<Rightarrow> TrainPosition" where
  "atStopPosition gtfs tripId current next stopInfo =
     \<lparr> TrainPosition.trip_id = tripId,
       lat = stop_lat stopInfo,
       lng = stop_lon stopInfo,
       bearing = Num 0,
       nextStop = map_get (stops gtfs) (StopTime.stop_id next),
       prevStop = map_get (stops gtfs) (StopTime.stop_id current),
       route = tripRoute gtfs tripId,
       trip = map_get (trips gtfs) tripId,
       status = AT_STOP \<rparr>"

definition movingPosition ::
  "'a GTFSData_scheme \<Rightarrow> string \<Rightarrow> real \<Rightarrow> StopTime \<Rightarrow> StopTime \<Rightarrow> Stop \<Rightarrow> Stop
     \<Rightarrow> TrainPosition" where
  "movingPosition gtfs tripId currentSeconds current next stopA stopB =
     (let duration = orZero (arrival_seconds next) - orZero (departure_seconds current);
          elapsed = currentSeconds - orZero (departure_seconds current);
          fraction = Num (elapsed / duration)
      in \<lparr> TrainPosition.trip_id = tripId,
           lat = interpolate (stop_lat stopA) (stop_lat stopB) fraction,
           lng = interpolate (stop_lon stopA) (stop_lon stopB) fraction,
           bearing = getBearing (stop_lat stopA) (stop_lon stopA) (stop_lat stopB) (stop_lon stopB),
           nextStop = Some stopB,
           prevStop = Some stopA,
           route = tripRoute gtfs tripId,
           trip = map_get (trips gtfs) tripId,
           status = MOVING \<rparr>)"

text \<open>
  The body of the inner loop at one pair of consecutive stop-times: \<open>Some\<close> of what it
  pushes when it ends in \<open>break\<close>, \<open>None\<close> when it falls through to the next index.
\<close>

definition segmentStep ::
  "'a GTFSData_scheme \<Rightarrow> string \<Rightarrow> real \<Rightarrow> StopTime \<Rightarrow> StopTime \<Rightarrow> TrainPosition list option" where
  "segmentStep gtfs tripId currentSeconds current next =
     (if atStopCase currentSeconds current then
        (case map_get (stops gtfs) (StopTime.stop_id current) of
           Some stopInfo \<Rightarrow> Some [atStopPosition gtfs tripId current next stopInfo]
         | None \<Rightarrow> Some [])
      else if movingCase currentSeconds current next then
        (case map_get (stops gtfs) (StopTime.stop_id current) of
           None \<Rightarrow> Some []
         | Some stopA \<Rightarrow>
            (case map_get (stops gtfs) (StopTime.stop_id next) of
               None \<Rightarrow> Some []
             | Some stopB \<Rightarrow>
                 Some [movingPosition gtfs tripId currentSeconds current next stopA stopB]))
      else None)"

text \<open>
  The inner loop \<open>for (let i = 0; i < times.length - 1; i++)\<close> from index \<open>i\<close> on; the
  array \<open>times\<close> is \<open>tms\<close>. The result is what the loop pushes.
\<close>

function scanSegments ::
  "'a GTFSData_scheme \<Rightarrow> string \<Rightarrow> real \<Rightarrow> StopTime list \<Rightarrow> nat \<Rightarrow> error + TrainPosition list" where
  "scanSegments gtfs tripId currentSeconds tms i =
     (if int i < int (length tms) - 1 then
        (case index tms i of
           None \<Rightarrow> Inl TypeError
         | Some current \<Rightarrow>
            (case index tms (i + 1) of
               None \<Rightarrow> Inl TypeError
             | Some next \<Rightarrow>
                (case segmentStep gtfs tripId currentSeconds current next of
                   Some pushed \<Rightarrow> Inr pushed
                 | None \<Rightarrow> scanSegments gtfs tripId currentSeconds tms (i + 1))))
      else Inr [])"
  by pat_completeness auto
termination
  by (relation "measure (\<lambda>(gtfs, tripId, currentSeconds, tms, i). length tms - i)") auto

declare scanSegments.simps [simp del]

text \<open>The body of the outer loop for one trip id: the positions it pushes.\<close>

definition tripPositions ::
  "'a GTFSData_scheme \<Rightarrow> string \<Rightarrow> real \<Rightarrow> error + TrainPosition list" where
  "tripPositions gtfs tripId currentSeconds =
     (case map_get (stopTimes gtfs) tripId of
        None \<Rightarrow> Inr []
      | Some tms \<Rightarrow>
          if length tms < 2 then Inr []
          else
            (case index tms 0 of
               None \<Rightarrow> Inl TypeError
             | Some firstStop \<Rightarrow>
                (case index tms (length tms - 1) of
                   None \<Rightarrow> Inl TypeError
                 | Some lastStop \<Rightarrow>
                    if currentSeconds < orZero (departure_seconds firstStop) then Inr []
                    else if currentSeconds > orZero (arrival_seconds lastStop) then Inr []
                    else scanSegments gtfs tripId currentSeconds tms 0)))"

fun positionsLoop ::
  "'a GTFSData_scheme \<Rightarrow> real \<Rightarrow> string list \<Rightarrow> TrainPosition list \<Rightarrow> error + TrainPosition list" where
  "positionsLoop gtfs currentSeconds [] positions = Inr positions"
| "positionsLoop gtfs currentSeconds (tripId # rest) positions =
     (case tripPositions gtfs tripId currentSeconds of
        Inl e \<Rightarrow> Inl e
      | Inr pushed \<Rightarrow> positionsLoop gtfs currentSeconds rest (positions @ pushed))"

definition calculateTrainPositions ::
  "'a GTFSData_scheme \<Rightarrow> string list \<Rightarrow> real \<Rightarrow> error + TrainPosition list" where
  "calculateTrainPositions gtfs activeTripIds currentSeconds =
     positionsLoop gtfs currentSeconds activeTripIds []"

section \<open>Service resolver (getActiveTripsForToday)\<close>

text \<open>
  The \<open>Date\<close> argument is read through four accessors only; the record holds their
  values (\<open>getMonth\<close> counts from 0, \<open>getDay\<close> from Sunday = 0).
\<close>

record Date =
  getDay :: nat
  getFullYear :: int
  getMonth :: nat
  getDate :: nat

text \<open>
  \<open>Number.prototype.toString\<close> on an integer, \<open>String.prototype.padStart\<close>, and
  \<open>parseInt\<close> without a radix: leading white space is skipped, a sign is read, a prefix
  \<open>0x\<close> selects base 16, and the longest prefix of digits is the value (taken exactly);
  \<open>None\<close> is NaN. Every comparison with NaN is false.
  The white space is that of ECMAScript's \<open>TrimString\<close>, in UTF-8: tab, line feed,
  vertical tab, form feed, carriage return, space, U+00A0, U+1680, U+2000 to U+200A,
  U+2028, U+2029, U+202F, U+205F, U+3000 and U+FEFF.
\<close>

definition digitChar :: "nat \<Rightarrow> char" where
  "digitChar n = ''0123456789'' ! n"

function natToString :: "nat \<Rightarrow> string" where
  "natToString n =
     (if n < 10 then [digitChar n] else natToString (n div 10) @ [digitChar (n mod 10)])"
  by pat_completeness auto
termination
  by (relation "measure (\<lambda>n. n)") auto

declare natToString.simps [simp del]

definition toString :: "int \<Rightarrow> string" where
  "toString n = (if n < 0 then CHR ''-'' # natToString (nat (- n)) else natToString (nat n))"

definition padStart :: "string \<Rightarrow> nat \<Rightarrow> char \<Rightarrow> string" where
  "padStart s targetLength c = replicate (targetLength - length s) c @ s"

definition whiteSpace :: "string list" where
  "whiteSpace =
     [[CHR 0x09], [CHR 0x0A], [CHR 0x0B], [CHR 0x0C], [CHR 0x0D], [CHR 0x20],
      [CHR 0xC2, CHR 0xA0], [CHR 0xE1, CHR 0x9A, CHR 0x80],
      [CHR 0xE2, CHR 0x80, CHR 0x80], [CHR 0xE2, CHR 0x80, CHR 0x81],
      [CHR 0xE2, CHR 0x80, CHR 0x82], [CHR 0xE2, CHR 0x80, CHR 0x83],
      [CHR 0xE2, CHR 0x80, CHR 0x84], [CHR 0xE2, CHR 0x80, CHR 0x85],
      [CHR 0xE2, CHR 0x80, CHR 0x86], [CHR 0xE2, CHR 0x80, CHR 0x87],
      [CHR 0xE2, CHR 0x80, CHR 0x88], [CHR 0xE2, CHR 0x80, CHR 0x89],
      [CHR 0xE2, CHR 0x80, CHR 0x8A], [CHR 0xE2, CHR 0x80, CHR 0xA8],
      [CHR 0xE2, CHR 0x80, CHR 0xA9], [CHR 0xE2, CHR 0x80, CHR 0xAF],
      [CHR 0xE2, CHR 0x81, CHR 0x9F], [CHR 0xE3, CHR 0x80, CHR 0x80],
      [CHR 0xEF, CHR 0xBB, CHR 0xBF]]"

function trimStart :: "string \<Rightarrow> string" where
  "trimStart s =
     (case find (\<lambda>w. take (length w) s = w) whiteSpace of
        None \<Rightarrow> s
      | Some w \<Rightarrow> trimStart (drop (length w) s))"
  by pat_completeness auto
termination
proof (relation "measure length")
  show "wf (measure length)" by simp
next
  fix s w
  assume "find (\<lambda>w. take (length w) s = w) whiteSpace = Some w"
  then have "w \<in> set whiteSpace" and pre: "take (length w) s = w"
    by (auto simp: find_Some_iff)
  then have "w \<noteq> []" by (auto simp: whiteSpace_def)
  with pre have "0 < length w" and "s \<noteq> []" by auto
  then show "(drop (length w) s, s) \<in> measure length" by simp
qed

declare trimStart.simps [simp del]

definition digitValue :: "char \<Rightarrow> nat option" where
  "digitValue c =
     map_of [(CHR ''0'', 0), (CHR ''1'', 1), (CHR ''2'', 2), (CHR ''3'', 3), (CHR ''4'', 4),
             (CHR ''5'', 5), (CHR ''6'', 6), (CHR ''7'', 7), (CHR ''8'', 8), (CHR ''9'', 9),
             (CHR ''a'', 10), (CHR ''b'', 11), (CHR ''c'', 12), (CHR ''d'', 13),
             (CHR ''e'', 14), (CHR ''f'', 15),
             (CHR ''A'', 10), (CHR ''B'', 11), (CHR ''C'', 12), (CHR ''D'', 13),
             (CHR ''E'', 14), (CHR ''F'', 15)] c"

definition radixDigit :: "nat \<Rightarrow> char \<Rightarrow> nat option" where
  "radixDigit R c =
     (case digitValue c of None \<Rightarrow> None | Some v \<Rightarrow> (if v < R then Some v else None))"

fun parseDigits :: "nat \<Rightarrow> string \<Rightarrow> nat option \<Rightarrow> nat option" where
  "parseDigits R [] acc = acc"
| "parseDigits R (c # cs) acc =
     (case radixDigit R c of
        None \<Rightarrow> acc
      | Some v \<Rightarrow> parseDigits R cs (Some (R * (case acc of None \<Rightarrow> 0 | Some a \<Rightarrow> a) + v)))"

definition parseInt :: "string \<Rightarrow> int option" where
  "parseInt s =
     (let t = trimStart s;
          neg = (take 1 t = ''-'');
          u = (if take 1 t = ''-'' \<or> take 1 t = ''+'' then drop 1 t else t);
          hex = (take 2 u = ''0x'' \<or> take 2 u = ''0X'');
          R = (if hex then 16 else 10);
          v = (if hex then drop 2 u else u)
      in case parseDigits R v None of
           None \<Rightarrow> None
         | Some n \<Rightarrow> Some (if neg then - int n else int n))"

definition geNum :: "int option \<Rightarrow> int option \<Rightarrow> bool" where
  "geNum a b = (case a of None \<Rightarrow> False | Some x \<Rightarrow> (case b of None \<Rightarrow> False | Some y \<Rightarrow> x \<ge> y))"

definition leNum :: "int option \<Rightarrow> int option \<Rightarrow> bool" where
  "leNum a b = (case a of None \<Rightarrow> False | Some x \<Rightarrow> (case b of None \<Rightarrow> False | Some y \<Rightarrow> x \<le> y))"

definition days :: "string list" where
  "days = [''sunday'', ''monday'', ''tuesday'', ''wednesday'', ''thursday'', ''friday'',
           ''saturday'']"

definition todayStr :: "Date \<Rightarrow> string option" where
  "todayStr dt = index days (getDay dt)"

definition dateStr :: "Date \<Rightarrow> string" where
  "dateStr dt =
     (let yyyy = toString (getFullYear dt);
          mm = padStart (toString (int (getMonth dt) + 1)) 2 (CHR ''0'');
          dd = padStart (toString (int (getDate dt))) 2 (CHR ''0'')
      in yyyy @ mm @ dd)"

definition dateInt :: "Date \<Rightarrow> int option" where
  "dateInt dt = parseInt (dateStr dt)"

text \<open>\<open>(cal as any)[name]\<close>: the property of a calendar row under a computed name.\<close>

definition calendarProperty :: "Calendar \<Rightarrow> string option \<Rightarrow> string option" where
  "calendarProperty cal name =
     (case name of
        None \<Rightarrow> None
      | Some n \<Rightarrow>
          map_of [(''service_id'', Calendar.service_id cal), (''monday'', monday cal),
                  (''tuesday'', tuesday cal), (''wednesday'', wednesday cal),
                  (''thursday'', thursday cal), (''friday'', friday cal),
                  (''saturday'', saturday cal), (''sunday'', sunday cal),
                  (''start_date'', start_date cal), (''end_date'', end_date cal)] n)"

text \<open>Step 1, the body of \<open>gtfs.calendar.forEach\<close>, on the set \<open>activeServiceIds\<close> (here \<open>active\<close>).\<close>

definition checkCalendar :: "Date \<Rightarrow> Calendar \<Rightarrow> string set \<Rightarrow> string set" where
  "checkCalendar dt cal active =
     (let start = parseInt (start_date cal);
          end = parseInt (end_date cal)
      in if geNum (dateInt dt) start \<and> leNum (dateInt dt) end then
           (if calendarProperty cal (todayStr dt) = Some ''1''
            then insert (Calendar.service_id cal) active
            else active)
         else active)"

definition standardCalendar :: "'a GTFSData_scheme \<Rightarrow> Date \<Rightarrow> string set" where
  "standardCalendar gtfs dt = fold (checkCalendar dt) (map_values (calendar gtfs)) {}"

text \<open>Step 2, the body of the inner \<open>dates.forEach\<close> and of the outer \<open>forEach\<close>.\<close>

definition checkException :: "string \<Rightarrow> string \<Rightarrow> CalendarDate \<Rightarrow> string set \<Rightarrow> string set" where
  "checkException dstr serviceId d active =
     (if date d = dstr then
        (if exception_type d = ''1'' then insert serviceId active
         else if exception_type d = ''2'' then active - {serviceId}
         else active)
      else active)"

definition checkExceptions ::
  "string \<Rightarrow> string \<times> CalendarDate list \<Rightarrow> string set \<Rightarrow> string set" where
  "checkExceptions dstr entry active =
     fold (checkException dstr (fst entry)) (snd entry) active"

definition activeServiceIds :: "'a ExtendedGTFSData_scheme \<Rightarrow> Date \<Rightarrow> string set" where
  "activeServiceIds gtfs dt =
     (case calendarDates gtfs of
        None \<Rightarrow> standardCalendar gtfs dt
      | Some cds \<Rightarrow> fold (checkExceptions (dateStr dt)) cds (standardCalendar gtfs dt))"

definition getActiveTripsForToday :: "'a ExtendedGTFSData_scheme \<Rightarrow> Date \<Rightarrow> string list" where
  "getActiveTripsForToday gtfs dt =
     map Trip.trip_id
       (filter (\<lambda>trip. Trip.service_id trip \<in> activeServiceIds gtfs dt)
          (map_values (trips gtfs)))"

text \<open>
  The grouping of the rows of \<open>calendar_dates.txt\<close> in \<open>parseGTFSZip\<close>: a row of a
  service not seen before adds the key with an empty list, then the row is pushed at the
  end of the list of its service. The map under construction is \<open>m\<close>.
\<close>

definition pushCalendarDate ::
  "CalendarDate \<Rightarrow> CalendarDate list jsmap \<Rightarrow> CalendarDate list jsmap" where
  "pushCalendarDate cd m =
     (let withKey = (if map_get m (CalendarDate.service_id cd) = None
                     then m @ [(CalendarDate.service_id cd, [])] else m)
      in map (\<lambda>entry. if fst entry = CalendarDate.service_id cd
                        then (fst entry, snd entry @ [cd]) else entry) withKey)"

definition groupCalendarDates :: "CalendarDate list \<Rightarrow> CalendarDate list jsmap" where
  "groupCalendarDates calendarDatesRaw = fold pushCalendarDate calendarDatesRaw []"

section \<open>Notions of the specification\<close>

text \<open>
  Schedule well-formedness as the data model states it: at every stop-time the departure
  is not before the arrival, and the arrival at the following stop-time is not before this
  departure. The seconds are read as the simulator reads them, through \<open>x || 0\<close>.
\<close>

abbreviation arr :: "StopTime \<Rightarrow> real" where
  "arr s \<equiv> orZero (arrival_seconds s)"

abbreviation dep :: "StopTime \<Rightarrow> real" where
  "dep s \<equiv> orZero (departure_seconds s)"

fun wellFormed :: "StopTime list \<Rightarrow> bool" where
  "wellFormed [] = True"
| "wellFormed [s] = (arr s \<le> dep s)"
| "wellFormed (s # s' # rest) = (arr s \<le> dep s \<and> dep s \<le> arr s' \<and> wellFormed (s' # rest))"




definition lerp :: "real \<Rightarrow> real \<Rightarrow> real \<Rightarrow> real" where
  "lerp a b f = a + (b - a) * f"

text \<open>What one trip id contributes to the output list.\<close>

definition pushedFor :: "'a GTFSData_scheme \<Rightarrow> real \<Rightarrow> string \<Rightarrow> TrainPosition list" where
  "pushedFor gtfs currentSeconds tripId =
     (case tripPositions gtfs tripId currentSeconds of Inl e \<Rightarrow> [] | Inr pushed \<Rightarrow> pushed)"

text \<open>
  The flag of a weekly rule for a day of the week, the days numbered as \<open>getDay\<close> numbers
  them (0 is Sunday). The \<open>YYYYMMDD\<close> integer of a date. The day of the week of a calendar
  date of the Gregorian calendar (month 1 to 12), and the \<open>Date\<close> object of such a date.
\<close>

definition weekdayFlag :: "Calendar \<Rightarrow> nat \<Rightarrow> string option" where
  "weekdayFlag cal w =
     (if w = 0 then Some (sunday cal)
      else if w = 1 then Some (monday cal)
      else if w = 2 then Some (tuesday cal)
      else if w = 3 then Some (wednesday cal)
      else if w = 4 then Some (thursday cal)
      else if w = 5 then Some (friday cal)
      else if w = 6 then Some (saturday cal)
      else None)"

definition dayOfWeek :: "int \<Rightarrow> nat \<Rightarrow> nat \<Rightarrow> nat" where
  "dayOfWeek y m d =
     (let y' = (if m < 3 then y - 1 else y);
          t = [0, 3, 2, 5, 0, 3, 5, 1, 4, 6, 2, 4] ! (m - 1)
      in nat ((y' + y' div 4 - y' div 100 + y' div 400 + t + int d) mod 7))"

definition yyyymmdd :: "Date \<Rightarrow> int" where
  "yyyymmdd dt = getFullYear dt * 10000 + (int (getMonth dt) + 1) * 100 + int (getDate dt)"

definition civilDate :: "int \<Rightarrow> nat \<Rightarrow> nat \<Rightarrow> Date" where
  "civilDate y m d =
     \<lparr> getDay = dayOfWeek y m d, getFullYear = y, getMonth = m - 1, getDate = d \<rparr>"

text \<open>
  A weekly rule matches a date when the date integer lies in the window of the rule and the
  flag of the rule for the day of the week is \<open>1\<close>. The effective exceptions of a service
  on a date are the entries of its list with that date and type \<open>1\<close> (ADDED) or \<open>2\<close>
  (REMOVED), in list order.
\<close>

definition ruleMatches :: "Date \<Rightarrow> Calendar \<Rightarrow> bool" where
  "ruleMatches dt cal =
     (geNum (dateInt dt) (parseInt (start_date cal)) \<and>
      leNum (dateInt dt) (parseInt (end_date cal)) \<and>
      calendarProperty cal (todayStr dt) = Some ''1'')"

definition activeByRule :: "'a GTFSData_scheme \<Rightarrow> Date \<Rightarrow> string \<Rightarrow> bool" where
  "activeByRule gtfs dt sid =
     (\<exists>cal \<in> set (map_values (calendar gtfs)). Calendar.service_id cal = sid \<and> ruleMatches dt cal)"

definition effective :: "string \<Rightarrow> CalendarDate list \<Rightarrow> CalendarDate list" where
  "effective dstr ds =
     filter (\<lambda>d. date d = dstr \<and> (exception_type d = ''1'' \<or> exception_type d = ''2'')) ds"

text \<open>
  Two stores hold the same tables when each table has the same entries (key and value),
  whatever the insertion order. \<open>wf_store\<close> is the key uniqueness of the exceptions
  table, the only table whose iteration order can matter.
\<close>

definition wf_store :: "'a ExtendedGTFSData_scheme \<Rightarrow> bool" where
  "wf_store gtfs = (case calendarDates gtfs of None \<Rightarrow> True | Some cds \<Rightarrow> wf_map cds)"

definition sameStore :: "'a ExtendedGTFSData_scheme \<Rightarrow> 'a ExtendedGTFSData_scheme \<Rightarrow> bool" where
  "sameStore g1 g2 =
     (set (calendar g1) = set (calendar g2) \<and>
      set (trips g1) = set (trips g2) \<and>
      map_option set (calendarDates g1) = map_option set (calendarDates g2))"

section \<open>Example schedules\<close>

definition mkStop :: "string \<Rightarrow> real \<Rightarrow> real \<Rightarrow> Stop" where
  "mkStop sid la lo =
     \<lparr> Stop.stop_id = sid, stop_name = sid, stop_lat = Num la, stop_lon = Num lo \<rparr>"

definition mkStopTime :: "string \<Rightarrow> string \<Rightarrow> real \<Rightarrow> real \<Rightarrow> real \<Rightarrow> StopTime" where
  "mkStopTime tid sid n a d =
     \<lparr> StopTime.trip_id = tid, arrival_time = [], departure_time = [], StopTime.stop_id = sid,
       stop_sequence = n, arrival_seconds = Some a, departure_seconds = Some d \<rparr>"

text \<open>
  Three stops on a meridian-like line; the stop id \<open>X\<close> is used by a stop-time but is not
  in the stops table. Trip \<open>morning\<close> runs 08:00:00 to 09:00:00, trip \<open>ab\<close> is the
  two-stop interpolation example, \<open>short\<close> has one stop-time, \<open>ghostAt\<close> waits at the
  unknown stop and \<open>ghostTo\<close> travels towards it.
\<close>

definition exStopA :: Stop where "exStopA = mkStop ''A'' 40 (-3)"
definition exStopB :: Stop where "exStopB = mkStop ''B'' 41 (-3)"
definition exStopC :: Stop where "exStopC = mkStop ''C'' 42 (-7 / 2)"

definition morning :: "StopTime list" where
  "morning = [mkStopTime ''morning'' ''A'' 1 28800 28800,
              mkStopTime ''morning'' ''B'' 2 30000 30060,
              mkStopTime ''morning'' ''C'' 3 32400 32400]"

definition ab :: "StopTime list" where
  "ab = [mkStopTime ''ab'' ''A'' 1 1000 1000, mkStopTime ''ab'' ''B'' 2 2000 2000]"

definition ghostAt :: "StopTime list" where
  "ghostAt = [mkStopTime ''ghostAt'' ''X'' 1 100 200,
              mkStopTime ''ghostAt'' ''B'' 2 200 300,
              mkStopTime ''ghostAt'' ''C'' 3 400 400]"

definition ghostTo :: "StopTime list" where
  "ghostTo = [mkStopTime ''ghostTo'' ''A'' 1 100 100,
              mkStopTime ''ghostTo'' ''X'' 2 300 300,
              mkStopTime ''ghostTo'' ''C'' 3 400 400]"

definition exampleTrip :: Trip where
  "exampleTrip =
     \<lparr> Trip.route_id = ''R1'', Trip.service_id = ''WK'', Trip.trip_id = ''morning'',
       trip_headsign = ''C'', trip_short_name = None, direction_id = None \<rparr>"

definition exampleRoute :: Route where
  "exampleRoute =
     \<lparr> Route.route_id = ''R1'', route_short_name = ''AVE'', route_long_name = ''A - C'',
       route_type = ''2'', route_color = None, route_text_color = None \<rparr>"

definition exampleGtfs :: GTFSData where
  "exampleGtfs =
     \<lparr> stops = [(''A'', exStopA), (''B'', exStopB), (''C'', exStopC)],
       routes = [(''R1'', exampleRoute)],
       trips = [(''morning'', exampleTrip)],
       stopTimes = [(''morning'', morning), (''ab'', ab),
                    (''short'', [mkStopTime ''short'' ''A'' 1 100 100]),
                    (''ghostAt'', ghostAt), (''ghostTo'', ghostTo)],
       calendar = [] \<rparr>"

text \<open>
  A calendar of three services. \<open>WK\<close> runs every day of the first week of 2024, \<open>XM\<close>
  has no weekly rule and one ADDED exception, \<open>SA\<close> runs on Saturdays of 2024. The
  dates are given with their day of the week (2024-01-01 is a Monday).
\<close>

definition mkCalendar :: "string \<Rightarrow> string \<Rightarrow> string \<Rightarrow> string \<Rightarrow> string \<Rightarrow> Calendar" where
  "mkCalendar sid weekday weekend start end =
     \<lparr> Calendar.service_id = sid, monday = weekday, tuesday = weekday, wednesday = weekday,
       thursday = weekday, friday = weekday, saturday = weekend, sunday = weekend,
       start_date = start, end_date = end \<rparr>"

definition mkException :: "string \<Rightarrow> string \<Rightarrow> string \<Rightarrow> CalendarDate" where
  "mkException sid d ty = \<lparr> CalendarDate.service_id = sid, date = d, exception_type = ty \<rparr>"

definition mkTrip :: "string \<Rightarrow> string \<Rightarrow> Trip" where
  "mkTrip tid sid =
     \<lparr> Trip.route_id = ''R1'', Trip.service_id = sid, Trip.trip_id = tid,
       trip_headsign = ''C'', trip_short_name = None, direction_id = None \<rparr>"

definition mkDate :: "int \<Rightarrow> nat \<Rightarrow> nat \<Rightarrow> nat \<Rightarrow> Date" where
  "mkDate y m d w = \<lparr> getDay = w, getFullYear = y, getMonth = m - 1, getDate = d \<rparr>"

definition weekRule :: Calendar where
  "weekRule = mkCalendar ''WK'' ''1'' ''1'' ''20240101'' ''20240107''"

definition exampleCalendar :: "Calendar jsmap" where
  "exampleCalendar =
     [(''WK'', weekRule), (''SA'', mkCalendar ''SA'' ''0'' ''1'' ''20240101'' ''20241231'')]"

definition exampleTrips :: "Trip jsmap" where
  "exampleTrips =
     [(''morning'', mkTrip ''morning'' ''WK''), (''extra'', mkTrip ''extra'' ''XM''),
      (''ab'', mkTrip ''ab'' ''SA'')]"

definition exampleStore :: "CalendarDate list jsmap option \<Rightarrow> ExtendedGTFSData" where
  "exampleStore cds =
     \<lparr> stops = [], routes = [], trips = exampleTrips, stopTimes = [],
       calendar = exampleCalendar, calendarDates = cds \<rparr>"

definition exampleExceptions :: "CalendarDate list jsmap" where
  "exampleExceptions =
     [(''XM'', [mkException ''XM'' ''20240215'' ''1'']),
      (''WK'', [mkException ''WK'' ''20240103'' ''2''])]"

text \<open>
  Two exceptions of one service on one date, in both orders; and the example store with
  its tables filled in another order.
\<close>

definition orderedExceptions :: "CalendarDate list jsmap" where
  "orderedExceptions =
     [(''XM'', [mkException ''XM'' ''20240215'' ''1'', mkException ''XM'' ''20240215'' ''2'']),
      (''SA'', [mkException ''SA'' ''20240215'' ''2'', mkException ''SA'' ''20240215'' ''1''])]"

definition permutedStore :: ExtendedGTFSData where
  "permutedStore =
     \<lparr> stops = [], routes = [], trips = rev exampleTrips, stopTimes = [],
       calendar = rev exampleCalendar, calendarDates = Some (rev exampleExceptions) \<rparr>"

text \<open>
  A schedule with overlapping times: the trip \<open>overlap\<close> leaves B (at 40) before it
  has arrived there (at 100). The trip \<open>blank\<close> has blank times at its middle stop, which
  the loader turns into 0.
\<close>

definition overlap :: "StopTime list" where
  "overlap = [mkStopTime ''overlap'' ''A'' 1 0 0,
              mkStopTime ''overlap'' ''B'' 2 100 40,
              mkStopTime ''overlap'' ''C'' 3 200 200]"

definition blank :: "StopTime list" where
  "blank = [mkStopTime ''blank'' ''A'' 1 1000 1000,
            mkStopTime ''blank'' ''B'' 2 0 0,
            mkStopTime ''blank'' ''C'' 3 2000 2000]"

definition overlapGtfs :: GTFSData where
  "overlapGtfs =
     \<lparr> stops = [(''A'', exStopA), (''B'', exStopB), (''C'', exStopC)],
       routes = [], trips = [],
       stopTimes = [(''overlap'', overlap), (''blank'', blank)],
       calendar = [] \<rparr>"




text \<open>
  A rule that runs on Mondays and Sundays only, in the first week of 2024.
\<close>

definition monSunRule :: Calendar where
  "monSunRule =
     \<lparr> Calendar.service_id = ''MS'', monday = ''1'', tuesday = ''0'', wednesday = ''0'',
       thursday = ''0'', friday = ''0'', saturday = ''0'', sunday = ''1'',
       start_date = ''20240101'', end_date = ''20240107'' \<rparr>"

definition monSunStore :: ExtendedGTFSData where
  "monSunStore =
     \<lparr> stops = [], routes = [], trips = [(''ms'', mkTrip ''ms'' ''MS'')], stopTimes = [],
       calendar = [(''MS'', monSunRule)], calendarDates = None \<rparr>"

section \<open>The scan of one trip\<close>

lemma segmentStep_None:
  "segmentStep gtfs tripId now current next = None \<longleftrightarrow>
     \<not> atStopCase now current \<and> \<not> movingCase now current next"
  by (simp add: segmentStep_def split: option.splits)

lemma scanSegments_total:
  "\<exists>ps. scanSegments gtfs tripId now tms i = Inr ps"
proof (induction gtfs tripId now tms i rule: scanSegments.induct)
  case (1 gtfs tripId now tms i)
  show ?case
  proof (cases "int i < int (length tms) - 1")
    case False
    then show ?thesis by (simp add: scanSegments.simps)
  next
    case True
    then have a: "index tms i = Some (tms ! i)" and b: "index tms (i + 1) = Some (tms ! (i + 1))"
      by (simp_all add: index_def)
    show ?thesis
    proof (cases "segmentStep gtfs tripId now (tms ! i) (tms ! (i + 1))")
      case None
      with 1 [OF True a b None] True a b show ?thesis
        by (subst scanSegments.simps) simp
    next
      case (Some pushed)
      with True a b show ?thesis
        by (subst scanSegments.simps) simp
    qed
  qed
qed

lemma scanSegments_skip:
  assumes "i + 1 < length tms"
    and "segmentStep gtfs tripId now (tms ! i) (tms ! (i + 1)) = None"
  shows "scanSegments gtfs tripId now tms i = scanSegments gtfs tripId now tms (i + 1)"
  using assms by (subst scanSegments.simps) (simp add: index_def)

lemma scanSegments_hit:
  assumes "i + 1 < length tms"
    and "segmentStep gtfs tripId now (tms ! i) (tms ! (i + 1)) = Some ps"
  shows "scanSegments gtfs tripId now tms i = Inr ps"
  using assms by (subst scanSegments.simps) (simp add: index_def)

lemma scanSegments_end:
  assumes "\<not> i + 1 < length tms"
  shows "scanSegments gtfs tripId now tms i = Inr []"
  using assms by (subst scanSegments.simps) auto

lemma scanSegments_first:
  assumes "k + 1 < length tms"
    and "segmentStep gtfs tripId now (tms ! k) (tms ! (k + 1)) = Some ps"
    and "\<forall>j. i \<le> j \<and> j < k \<longrightarrow> segmentStep gtfs tripId now (tms ! j) (tms ! (j + 1)) = None"
    and "i \<le> k"
  shows "scanSegments gtfs tripId now tms i = Inr ps"
  using assms(3,4)
proof (induction "k - i" arbitrary: i)
  case 0
  then have "i = k" by simp
  then show ?case using assms(1,2) by (simp add: scanSegments_hit)
next
  case (Suc n)
  then have lt: "i < k" by simp
  then have "segmentStep gtfs tripId now (tms ! i) (tms ! (i + 1)) = None"
    using Suc.prems by simp
  moreover have "i + 1 < length tms" using lt assms(1) by simp
  ultimately have "scanSegments gtfs tripId now tms i = scanSegments gtfs tripId now tms (i + 1)"
    by (simp add: scanSegments_skip)
  moreover have "scanSegments gtfs tripId now tms (i + 1) = Inr ps"
    using Suc lt by (intro Suc.hyps) auto
  ultimately show ?case by simp
qed

lemma scanSegments_none:
  assumes "\<forall>j. i \<le> j \<and> j + 1 < length tms \<longrightarrow>
             segmentStep gtfs tripId now (tms ! j) (tms ! (j + 1)) = None"
  shows "scanSegments gtfs tripId now tms i = Inr []"
  using assms
proof (induction "length tms - i" arbitrary: i)
  case 0
  then show ?case by (simp add: scanSegments_end)
next
  case (Suc n)
  show ?case
  proof (cases "i + 1 < length tms")
    case False
    then show ?thesis by (simp add: scanSegments_end)
  next
    case True
    then have "scanSegments gtfs tripId now tms i = scanSegments gtfs tripId now tms (i + 1)"
      using Suc.prems by (simp add: scanSegments_skip)
    moreover have "scanSegments gtfs tripId now tms (i + 1) = Inr []"
      using Suc by (intro Suc.hyps) auto
    ultimately show ?thesis by simp
  qed
qed

lemma scanSegments_cases:
  assumes "scanSegments gtfs tripId now tms i = Inr ps"
  shows "ps = [] \<or>
     (\<exists>k. i \<le> k \<and> k + 1 < length tms \<and>
          segmentStep gtfs tripId now (tms ! k) (tms ! (k + 1)) = Some ps \<and>
          (\<forall>j. i \<le> j \<and> j < k \<longrightarrow> segmentStep gtfs tripId now (tms ! j) (tms ! (j + 1)) = None))"
  using assms
proof (induction "length tms - i" arbitrary: i)
  case 0
  then show ?case by (simp add: scanSegments_end)
next
  case (Suc n)
  show ?case
  proof (cases "i + 1 < length tms")
    case False
    with Suc.prems show ?thesis by (simp add: scanSegments_end)
  next
    case True
    show ?thesis
    proof (cases "segmentStep gtfs tripId now (tms ! i) (tms ! (i + 1))")
      case (Some qs)
      with True Suc.prems have "qs = ps" by (simp add: scanSegments_hit)
      with Some True show ?thesis by (intro disjI2 exI [of _ i]) auto
    next
      case None
      with True Suc.prems have "scanSegments gtfs tripId now tms (i + 1) = Inr ps"
        by (simp add: scanSegments_skip)
      moreover have "n = length tms - (i + 1)" using Suc.hyps(2) by simp
      ultimately have "ps = [] \<or>
        (\<exists>k. i + 1 \<le> k \<and> k + 1 < length tms \<and>
          segmentStep gtfs tripId now (tms ! k) (tms ! (k + 1)) = Some ps \<and>
          (\<forall>j. i + 1 \<le> j \<and> j < k \<longrightarrow> segmentStep gtfs tripId now (tms ! j) (tms ! (j + 1)) = None))"
        by (rule Suc.hyps(1) [rotated])
      then show ?thesis
      proof
        assume "ps = []" then show ?thesis by simp
      next
        assume "\<exists>k. i + 1 \<le> k \<and> k + 1 < length tms \<and>
          segmentStep gtfs tripId now (tms ! k) (tms ! (k + 1)) = Some ps \<and>
          (\<forall>j. i + 1 \<le> j \<and> j < k \<longrightarrow> segmentStep gtfs tripId now (tms ! j) (tms ! (j + 1)) = None)"
        then obtain k where k: "i + 1 \<le> k" "k + 1 < length tms"
          "segmentStep gtfs tripId now (tms ! k) (tms ! (k + 1)) = Some ps"
          "\<forall>j. i + 1 \<le> j \<and> j < k \<longrightarrow> segmentStep gtfs tripId now (tms ! j) (tms ! (j + 1)) = None"
          by blast
        have "\<forall>j. i \<le> j \<and> j < k \<longrightarrow> segmentStep gtfs tripId now (tms ! j) (tms ! (j + 1)) = None"
        proof (intro allI impI)
          fix j assume "i \<le> j \<and> j < k"
          then show "segmentStep gtfs tripId now (tms ! j) (tms ! (j + 1)) = None"
            using k(4) None by (cases "j = i") auto
        qed
        with k show ?thesis by (intro disjI2 exI [of _ k]) auto
      qed
    qed
  qed
qed

lemma segmentStep_length:
  "segmentStep gtfs tripId now current next = Some ps \<Longrightarrow> length ps \<le> 1"
  by (auto simp: segmentStep_def split: if_splits option.splits)

lemma segmentStep_trip_id:
  "segmentStep gtfs tripId now current next = Some ps \<Longrightarrow> p \<in> set ps \<Longrightarrow>
     TrainPosition.trip_id p = tripId"
  by (auto simp: segmentStep_def atStopPosition_def movingPosition_def Let_def
      split: if_splits option.splits)

lemma tripPositions_total:
  "\<exists>ps. tripPositions gtfs tripId now = Inr ps"
proof -
  obtain qs where "scanSegments gtfs tripId now (the (map_get (stopTimes gtfs) tripId)) 0 = Inr qs"
    using scanSegments_total by blast
  then show ?thesis
    by (auto simp: tripPositions_def index_def split: option.splits)
qed

lemma tripPositions_pushedFor:
  "tripPositions gtfs tripId now = Inr (pushedFor gtfs now tripId)"
  using tripPositions_total [of gtfs tripId now] by (auto simp: pushedFor_def)

lemma positionsLoop_eq:
  "positionsLoop gtfs now ids acc = Inr (acc @ concat (map (pushedFor gtfs now) ids))"
  by (induction ids arbitrary: acc) (simp_all add: tripPositions_pushedFor)

lemma calculateTrainPositions_eq:
  "calculateTrainPositions gtfs ids now = Inr (concat (map (pushedFor gtfs now) ids))"
  by (simp add: calculateTrainPositions_def positionsLoop_eq)

lemma wellFormed_tl: "wellFormed (s # rest) \<Longrightarrow> wellFormed rest"
  by (cases rest) auto

lemma wellFormed_arr_dep:
  "wellFormed tms \<Longrightarrow> j < length tms \<Longrightarrow> arr (tms ! j) \<le> dep (tms ! j)"
proof (induction tms arbitrary: j)
  case Nil
  then show ?case by simp
next
  case (Cons s rest)
  show ?case
  proof (cases j)
    case 0
    with Cons.prems show ?thesis by (cases rest) auto
  next
    case (Suc m)
    with Cons.prems Cons.IH [of m] show ?thesis by (auto dest: wellFormed_tl)
  qed
qed

lemma wellFormed_dep_arr:
  "wellFormed tms \<Longrightarrow> j + 1 < length tms \<Longrightarrow> dep (tms ! j) \<le> arr (tms ! (j + 1))"
proof (induction tms arbitrary: j)
  case Nil
  then show ?case by simp
next
  case (Cons s rest)
  show ?case
  proof (cases j)
    case 0
    with Cons.prems show ?thesis by (cases rest) auto
  next
    case (Suc m)
    with Cons.prems Cons.IH [of m] show ?thesis by (auto dest: wellFormed_tl)
  qed
qed

lemma wellFormed_dep_mono:
  assumes "wellFormed tms" and "k < length tms"
  shows "j \<le> k \<Longrightarrow> dep (tms ! j) \<le> dep (tms ! k)"
proof (induction "k - j" arbitrary: j)
  case 0
  then show ?case by simp
next
  case (Suc n)
  then have lt: "j < k" by simp
  have "dep (tms ! j) \<le> arr (tms ! (j + 1))"
    using assms lt by (intro wellFormed_dep_arr) auto
  also have "\<dots> \<le> dep (tms ! (j + 1))"
    using assms lt by (intro wellFormed_arr_dep) auto
  also have "\<dots> \<le> dep (tms ! k)"
    using Suc lt by (intro Suc.hyps) auto
  finally show ?case .
qed

lemma wellFormed_arr_mono:
  assumes "wellFormed tms" and "k < length tms"
  shows "j \<le> k \<Longrightarrow> arr (tms ! j) \<le> arr (tms ! k)"
proof (induction "k - j" arbitrary: j)
  case 0
  then show ?case by simp
next
  case (Suc n)
  then have lt: "j < k" by simp
  have "arr (tms ! j) \<le> dep (tms ! j)"
    using assms lt by (intro wellFormed_arr_dep) auto
  also have "\<dots> \<le> arr (tms ! (j + 1))"
    using assms lt by (intro wellFormed_dep_arr) auto
  also have "\<dots> \<le> arr (tms ! k)"
    using Suc lt by (intro Suc.hyps) auto
  finally show ?case .
qed

lemma tripPositions_first:
  assumes "map_get (stopTimes gtfs) tripId = Some tms"
    and "i + 1 < length tms"
    and "dep (tms ! 0) \<le> now"
    and "now \<le> arr (tms ! (length tms - 1))"
    and "segmentStep gtfs tripId now (tms ! i) (tms ! (i + 1)) = Some ps"
    and "\<forall>j<i. segmentStep gtfs tripId now (tms ! j) (tms ! (j + 1)) = None"
  shows "tripPositions gtfs tripId now = Inr ps"
proof -
  have "scanSegments gtfs tripId now tms 0 = Inr ps"
    using assms(2,5,6) by (intro scanSegments_first [where k = i]) auto
  with assms show ?thesis
    by (auto simp: tripPositions_def index_def)
qed

lemma tripPositions_cases:
  assumes "tripPositions gtfs tripId now = Inr ps"
  shows "ps = [] \<or>
     (\<exists>tms k. map_get (stopTimes gtfs) tripId = Some tms \<and> k + 1 < length tms \<and>
          dep (tms ! 0) \<le> now \<and> now \<le> arr (tms ! (length tms - 1)) \<and>
          segmentStep gtfs tripId now (tms ! k) (tms ! (k + 1)) = Some ps \<and>
          (\<forall>j<k. segmentStep gtfs tripId now (tms ! j) (tms ! (j + 1)) = None))"
proof (cases "ps = []")
  case True
  then show ?thesis by simp
next
  case False
  from assms False obtain tms where tms: "map_get (stopTimes gtfs) tripId = Some tms"
    by (auto simp: tripPositions_def split: option.splits)
  with assms False have w: "dep (tms ! 0) \<le> now" "now \<le> arr (tms ! (length tms - 1))"
    and sc: "scanSegments gtfs tripId now tms 0 = Inr ps"
    by (auto simp: tripPositions_def index_def split: option.splits if_splits)
  from scanSegments_cases [OF sc] False obtain k where
    "k + 1 < length tms" "segmentStep gtfs tripId now (tms ! k) (tms ! (k + 1)) = Some ps"
    "\<forall>j. 0 \<le> j \<and> j < k \<longrightarrow> segmentStep gtfs tripId now (tms ! j) (tms ! (j + 1)) = None"
    by blast
  with tms w show ?thesis by (intro disjI2 exI [of _ tms] exI [of _ k]) auto
qed

lemma pushedFor_cases:
  "pushedFor gtfs now tripId = [] \<or>
     (\<exists>tms k. map_get (stopTimes gtfs) tripId = Some tms \<and> k + 1 < length tms \<and>
          dep (tms ! 0) \<le> now \<and> now \<le> arr (tms ! (length tms - 1)) \<and>
          segmentStep gtfs tripId now (tms ! k) (tms ! (k + 1)) = Some (pushedFor gtfs now tripId) \<and>
          (\<forall>j<k. segmentStep gtfs tripId now (tms ! j) (tms ! (j + 1)) = None))"
  using tripPositions_cases [OF tripPositions_pushedFor] .

lemma pushedFor_length: "length (pushedFor gtfs now tripId) \<le> 1"
  using pushedFor_cases [of gtfs now tripId] by (auto dest: segmentStep_length)

lemma pushedFor_trip_id:
  "p \<in> set (pushedFor gtfs now tripId) \<Longrightarrow> TrainPosition.trip_id p = tripId"
  using pushedFor_cases [of gtfs now tripId] by (auto dest: segmentStep_trip_id)

lemma filter_pushedFor_other:
  "t \<noteq> tripId \<Longrightarrow>
     filter (\<lambda>p. TrainPosition.trip_id p = tripId) (pushedFor gtfs now t) = []"
  by (auto simp: filter_empty_conv dest: pushedFor_trip_id)

lemma filter_pushedFor_same:
  "filter (\<lambda>p. TrainPosition.trip_id p = tripId) (pushedFor gtfs now tripId)
     = pushedFor gtfs now tripId"
  by (auto simp: filter_id_conv dest: pushedFor_trip_id)

lemma filter_positions:
  "filter (\<lambda>p. TrainPosition.trip_id p = tripId) (concat (map (pushedFor gtfs now) ids))
     = concat (replicate (count_list ids tripId) (pushedFor gtfs now tripId))"
  by (induction ids) (auto simp: filter_pushedFor_other filter_pushedFor_same)

lemma positions_of_listed_trip:
  "tripId \<in> set ids \<Longrightarrow>
     set (pushedFor gtfs now tripId) \<subseteq> set (concat (map (pushedFor gtfs now) ids))"
  by auto

lemma positions_trip_ids:
  "p \<in> set (concat (map (pushedFor gtfs now) ids)) \<Longrightarrow>
     TrainPosition.trip_id p \<in> set ids \<and> p \<in> set (pushedFor gtfs now (TrainPosition.trip_id p))"
  by (auto dest: pushedFor_trip_id)

lemmas example_defs = exampleGtfs_def morning_def ab_def ghostAt_def ghostTo_def mkStopTime_def
  exStopA_def exStopB_def exStopC_def mkStop_def
lemmas run_defs = calculateTrainPositions_def tripPositions_def scanSegments.simps
  segmentStep_def atStopCase_def movingCase_def map_get_def index_def orZero_def

lemma segmentStep_Some_match:
  "segmentStep gtfs tripId now current next = Some ps \<Longrightarrow>
     atStopCase now current \<or> movingCase now current next"
  by (auto simp: segmentStep_def split: if_splits)

section \<open>Properties of the position simulator\<close>

text \<open>
  C7: the simulator never raises, and a trip whose stop-time sequence is absent, or has
  fewer than two entries, or has no matching segment at the given time, has no position
  in the output list.
\<close>
theorem degenerate_trips_omitted:
  "\<exists>positions. calculateTrainPositions gtfs activeTripIds now = Inr positions \<and>
     (\<forall>tripId tms.
        (map_get (stopTimes gtfs) tripId = None \<or>
         (map_get (stopTimes gtfs) tripId = Some tms \<and>
          (length tms < 2 \<or>
           (\<forall>i. i + 1 < length tms \<longrightarrow>
                \<not> atStopCase now (tms ! i) \<and> \<not> movingCase now (tms ! i) (tms ! (i + 1))))))
        \<longrightarrow> tripId \<notin> TrainPosition.trip_id ` set positions)"
proof (intro exI conjI allI impI)
  show "calculateTrainPositions gtfs activeTripIds now
          = Inr (concat (map (pushedFor gtfs now) activeTripIds))"
    by (rule calculateTrainPositions_eq)
next
  fix tripId tms
  assume deg: "map_get (stopTimes gtfs) tripId = None \<or>
         (map_get (stopTimes gtfs) tripId = Some tms \<and>
          (length tms < 2 \<or>
           (\<forall>i. i + 1 < length tms \<longrightarrow>
                \<not> atStopCase now (tms ! i) \<and> \<not> movingCase now (tms ! i) (tms ! (i + 1)))))"
  have "pushedFor gtfs now tripId = []"
  proof (rule ccontr)
    assume "pushedFor gtfs now tripId \<noteq> []"
    with pushedFor_cases [of gtfs now tripId] obtain tms' k where
      k: "map_get (stopTimes gtfs) tripId = Some tms'" "k + 1 < length tms'"
        "segmentStep gtfs tripId now (tms' ! k) (tms' ! (k + 1)) = Some (pushedFor gtfs now tripId)"
      by blast
    from k(3) have "atStopCase now (tms' ! k) \<or> movingCase now (tms' ! k) (tms' ! (k + 1))"
      by (rule segmentStep_Some_match)
    with deg k(1,2) show False by auto
  qed
  then show "tripId \<notin> TrainPosition.trip_id ` set (concat (map (pushedFor gtfs now) activeTripIds))"
    using positions_trip_ids [of _ gtfs now activeTripIds] by fastforce
qed

theorem degenerate_trips_omitted_witness:
  "\<exists>positions.
     calculateTrainPositions exampleGtfs [''none'', ''short'', ''morning'', ''ab''] 32400
       = Inr positions \<and>
     ''none'' \<notin> TrainPosition.trip_id ` set positions \<and>
     ''short'' \<notin> TrainPosition.trip_id ` set positions \<and>
     ''morning'' \<notin> TrainPosition.trip_id ` set positions"
proof -
  from degenerate_trips_omitted
    [of exampleGtfs "[''none'', ''short'', ''morning'', ''ab'']" 32400]
  obtain positions where
    run: "calculateTrainPositions exampleGtfs [''none'', ''short'', ''morning'', ''ab''] 32400
            = Inr positions"
    and omit: "\<And>tripId tms.
        map_get (stopTimes exampleGtfs) tripId = None \<or>
         (map_get (stopTimes exampleGtfs) tripId = Some tms \<and>
          (length tms < 2 \<or>
           (\<forall>i. i + 1 < length tms \<longrightarrow>
                \<not> atStopCase 32400 (tms ! i) \<and> \<not> movingCase 32400 (tms ! i) (tms ! (i + 1)))))
        \<Longrightarrow> tripId \<notin> TrainPosition.trip_id ` set positions"
    by blast
  have a: "''none'' \<notin> TrainPosition.trip_id ` set positions"
    by (rule omit [of "''none''" "[]"]) (simp add: map_get_def example_defs)
  have b: "''short'' \<notin> TrainPosition.trip_id ` set positions"
    by (rule omit [of "''short''" "[mkStopTime ''short'' ''A'' 1 100 100]"])
      (simp add: map_get_def exampleGtfs_def)
  have "\<forall>i. i + 1 < length morning \<longrightarrow>
          \<not> atStopCase 32400 (morning ! i) \<and> \<not> movingCase 32400 (morning ! i) (morning ! (i + 1))"
    by (simp add: morning_def mkStopTime_def atStopCase_def movingCase_def orZero_def
        less_Suc_eq)
  then have c: "''morning'' \<notin> TrainPosition.trip_id ` set positions"
    by (intro omit [of "''morning''" morning]) (simp add: map_get_def exampleGtfs_def)
  from run a b c show ?thesis by blast
qed

text \<open>
  C9: when the stop of the first matching at-stop stop-time, or either end stop of the first
  matching in-transit segment, is not in the stops table, the trip contributes nothing and
  no position of the output carries its id, whatever the later segments are.
\<close>
theorem unresolved_stop_drops_trip:
  assumes "calculateTrainPositions gtfs activeTripIds now = Inr positions"
    and "map_get (stopTimes gtfs) tripId = Some tms"
    and "i + 1 < length tms"
    and "\<forall>j<i. \<not> atStopCase now (tms ! j) \<and> \<not> movingCase now (tms ! j) (tms ! (j + 1))"
    and "(atStopCase now (tms ! i) \<and> map_get (stops gtfs) (StopTime.stop_id (tms ! i)) = None) \<or>
         (movingCase now (tms ! i) (tms ! (i + 1)) \<and>
          (map_get (stops gtfs) (StopTime.stop_id (tms ! i)) = None \<or>
           map_get (stops gtfs) (StopTime.stop_id (tms ! (i + 1))) = None))"
  shows "tripPositions gtfs tripId now = Inr [] \<and>
         tripId \<notin> TrainPosition.trip_id ` set positions"
proof -
  have here: "segmentStep gtfs tripId now (tms ! i) (tms ! (i + 1)) = Some []"
    using assms(5) by (auto simp: segmentStep_def atStopCase_def movingCase_def split: option.splits)
  have before: "\<forall>j<i. segmentStep gtfs tripId now (tms ! j) (tms ! (j + 1)) = None"
    using assms(4) by (simp add: segmentStep_None)
  have empty: "pushedFor gtfs now tripId = []"
  proof (rule ccontr)
    assume ne: "pushedFor gtfs now tripId \<noteq> []"
    with pushedFor_cases [of gtfs now tripId] obtain tms' k where
      k: "map_get (stopTimes gtfs) tripId = Some tms'" "k + 1 < length tms'"
        "segmentStep gtfs tripId now (tms' ! k) (tms' ! (k + 1)) = Some (pushedFor gtfs now tripId)"
        "\<forall>j<k. segmentStep gtfs tripId now (tms' ! j) (tms' ! (j + 1)) = None"
      by blast
    from k(1) assms(2) have same: "tms' = tms" by simp
    consider "k < i" | "k = i" | "i < k" by linarith
    then show False
    proof cases
      case 1
      with before k(3) same show False by simp
    next
      case 2
      with here k(3) same ne show False by simp
    next
      case 3
      with here k(4) same show False by simp
    qed
  qed
  have "positions = concat (map (pushedFor gtfs now) activeTripIds)"
    using assms(1) by (simp add: calculateTrainPositions_eq)
  then have "tripId \<notin> TrainPosition.trip_id ` set positions"
    using empty positions_trip_ids [of _ gtfs now activeTripIds] by fastforce
  moreover have "tripPositions gtfs tripId now = Inr []"
    using empty tripPositions_pushedFor [of gtfs tripId now] by simp
  ultimately show ?thesis by simp
qed

theorem unresolved_stop_drops_trip_witness:
  "calculateTrainPositions exampleGtfs [''ghostAt'', ''ghostTo''] 200 = Inr [] \<and>
   atStopCase 200 (ghostAt ! 0) \<and> atStopCase 200 (ghostAt ! 1) \<and>
   map_get (stops exampleGtfs) (StopTime.stop_id (ghostAt ! 1)) = Some exStopB \<and>
   tripPositions exampleGtfs ''ghostAt'' 200 = Inr [] \<and>
   tripPositions exampleGtfs ''ghostTo'' 200 = Inr [] \<and>
   ''ghostAt'' \<notin> TrainPosition.trip_id ` set ([] :: TrainPosition list) \<and>
   ''ghostTo'' \<notin> TrainPosition.trip_id ` set ([] :: TrainPosition list)"
proof -
  have run: "calculateTrainPositions exampleGtfs [''ghostAt'', ''ghostTo''] 200 = Inr []"
    by (simp add: run_defs example_defs)
  have at: "atStopCase 200 (ghostAt ! 0)" "atStopCase 200 (ghostAt ! 1)"
    by (simp_all add: atStopCase_def ghostAt_def mkStopTime_def orZero_def)
  have later: "map_get (stops exampleGtfs) (StopTime.stop_id (ghostAt ! 1)) = Some exStopB"
    by (simp add: map_get_def example_defs)
  have a: "tripPositions exampleGtfs ''ghostAt'' 200 = Inr [] \<and>
           ''ghostAt'' \<notin> TrainPosition.trip_id ` set ([] :: TrainPosition list)"
    by (rule unresolved_stop_drops_trip [OF run, where tms = ghostAt and i = 0])
      (simp_all add: map_get_def example_defs atStopCase_def orZero_def)
  have b: "tripPositions exampleGtfs ''ghostTo'' 200 = Inr [] \<and>
           ''ghostTo'' \<notin> TrainPosition.trip_id ` set ([] :: TrainPosition list)"
    by (rule unresolved_stop_drops_trip [OF run, where tms = ghostTo and i = 0])
      (simp_all add: map_get_def example_defs atStopCase_def movingCase_def orZero_def)
  from run at later a b show ?thesis by blast
qed

text \<open>
  C2: a trip id listed once contributes at most one position, the one of the first index
  whose segment matches; in a well-formed trip of three stop-times, a time strictly
  between the second departure and the third arrival gives the segment from the second
  to the third stop, in state MOVING.
\<close>

theorem first_matching_segment:
  assumes "calculateTrainPositions gtfs activeTripIds now = Inr positions"
    and "count_list activeTripIds tripId = 1"
  shows "length (filter (\<lambda>p. TrainPosition.trip_id p = tripId) positions) \<le> 1 \<and>
    (\<forall>p \<in> set positions. TrainPosition.trip_id p = tripId \<longrightarrow>
       (\<exists>tms i. map_get (stopTimes gtfs) tripId = Some tms \<and> i + 1 < length tms \<and>
          segmentStep gtfs tripId now (tms ! i) (tms ! (i + 1)) = Some [p] \<and>
          (atStopCase now (tms ! i) \<or> movingCase now (tms ! i) (tms ! (i + 1))) \<and>
          (\<forall>j<i. \<not> atStopCase now (tms ! j) \<and> \<not> movingCase now (tms ! j) (tms ! (j + 1))))) \<and>
    (\<forall>s1 s2 s3.
       map_get (stopTimes gtfs) tripId = Some [s1, s2, s3] \<and> wellFormed [s1, s2, s3] \<and>
       dep s2 < now \<and> now < arr s3 \<longrightarrow>
         filter (\<lambda>p. TrainPosition.trip_id p = tripId) positions =
           (case map_get (stops gtfs) (StopTime.stop_id s2) of
              None \<Rightarrow> []
            | Some stopA \<Rightarrow>
               (case map_get (stops gtfs) (StopTime.stop_id s3) of
                  None \<Rightarrow> []
                | Some stopB \<Rightarrow> [movingPosition gtfs tripId now s2 s3 stopA stopB])) \<and>
         (\<forall>p \<in> set positions. TrainPosition.trip_id p = tripId \<longrightarrow>
            status p = MOVING \<and>
            prevStop p = map_get (stops gtfs) (StopTime.stop_id s2) \<and>
            nextStop p = map_get (stops gtfs) (StopTime.stop_id s3)))"
proof -
  have pos: "positions = concat (map (pushedFor gtfs now) activeTripIds)"
    using assms(1) by (simp add: calculateTrainPositions_eq)
  have own: "filter (\<lambda>p. TrainPosition.trip_id p = tripId) positions = pushedFor gtfs now tripId"
    using assms(2) by (simp add: pos filter_positions)
  have mine: "p \<in> set (pushedFor gtfs now tripId)"
    if "p \<in> set positions" "TrainPosition.trip_id p = tripId" for p
    using that positions_trip_ids [of p gtfs now activeTripIds] by (auto simp: pos)
  have one: "length (filter (\<lambda>p. TrainPosition.trip_id p = tripId) positions) \<le> 1"
    using pushedFor_length [of gtfs now tripId] by (simp add: own)
  have first: "\<exists>tms i. map_get (stopTimes gtfs) tripId = Some tms \<and> i + 1 < length tms \<and>
          segmentStep gtfs tripId now (tms ! i) (tms ! (i + 1)) = Some [p] \<and>
          (atStopCase now (tms ! i) \<or> movingCase now (tms ! i) (tms ! (i + 1))) \<and>
          (\<forall>j<i. \<not> atStopCase now (tms ! j) \<and> \<not> movingCase now (tms ! j) (tms ! (j + 1)))"
    if "p \<in> set positions" "TrainPosition.trip_id p = tripId" for p
  proof -
    from mine [OF that] have p: "p \<in> set (pushedFor gtfs now tripId)" .
    then have ne: "pushedFor gtfs now tripId \<noteq> []" by auto
    with pushedFor_length [of gtfs now tripId] p have single: "pushedFor gtfs now tripId = [p]"
      by (cases "pushedFor gtfs now tripId") auto
    from pushedFor_cases [of gtfs now tripId] ne obtain tms k where
      k: "map_get (stopTimes gtfs) tripId = Some tms" "k + 1 < length tms"
        "segmentStep gtfs tripId now (tms ! k) (tms ! (k + 1)) = Some (pushedFor gtfs now tripId)"
        "\<forall>j<k. segmentStep gtfs tripId now (tms ! j) (tms ! (j + 1)) = None"
      by blast
    from k(3) have "atStopCase now (tms ! k) \<or> movingCase now (tms ! k) (tms ! (k + 1))"
      by (rule segmentStep_Some_match)
    with k single show ?thesis
      by (intro exI [of _ tms] exI [of _ k]) (simp add: segmentStep_None)
  qed
  have three: "filter (\<lambda>p. TrainPosition.trip_id p = tripId) positions =
           (case map_get (stops gtfs) (StopTime.stop_id s2) of
              None \<Rightarrow> []
            | Some stopA \<Rightarrow>
               (case map_get (stops gtfs) (StopTime.stop_id s3) of
                  None \<Rightarrow> []
                | Some stopB \<Rightarrow> [movingPosition gtfs tripId now s2 s3 stopA stopB])) \<and>
         (\<forall>p \<in> set positions. TrainPosition.trip_id p = tripId \<longrightarrow>
            status p = MOVING \<and>
            prevStop p = map_get (stops gtfs) (StopTime.stop_id s2) \<and>
            nextStop p = map_get (stops gtfs) (StopTime.stop_id s3))"
    if h: "map_get (stopTimes gtfs) tripId = Some [s1, s2, s3] \<and> wellFormed [s1, s2, s3] \<and>
       dep s2 < now \<and> now < arr s3" for s1 s2 s3
  proof -
    from h have t: "map_get (stopTimes gtfs) tripId = Some [s1, s2, s3]"
      and w: "arr s1 \<le> dep s1" "dep s1 \<le> arr s2" "arr s2 \<le> dep s2" "dep s2 \<le> arr s3"
      and n: "dep s2 < now" "now < arr s3"
      by simp_all
    have s0: "segmentStep gtfs tripId now s1 s2 = None"
      using w n by (simp add: segmentStep_None atStopCase_def movingCase_def)
    have s1: "segmentStep gtfs tripId now s2 s3 =
        Some (case map_get (stops gtfs) (StopTime.stop_id s2) of
              None \<Rightarrow> []
            | Some stopA \<Rightarrow>
               (case map_get (stops gtfs) (StopTime.stop_id s3) of
                  None \<Rightarrow> []
                | Some stopB \<Rightarrow> [movingPosition gtfs tripId now s2 s3 stopA stopB]))"
      using n by (simp add: segmentStep_def atStopCase_def movingCase_def split: option.splits)
    have "tripPositions gtfs tripId now =
        Inr (case map_get (stops gtfs) (StopTime.stop_id s2) of
              None \<Rightarrow> []
            | Some stopA \<Rightarrow>
               (case map_get (stops gtfs) (StopTime.stop_id s3) of
                  None \<Rightarrow> []
                | Some stopB \<Rightarrow> [movingPosition gtfs tripId now s2 s3 stopA stopB]))"
      using t w n s0 s1
      by (intro tripPositions_first [where tms = "[s1, s2, s3]" and i = 1]) simp_all
    then have pf: "pushedFor gtfs now tripId =
        (case map_get (stops gtfs) (StopTime.stop_id s2) of
              None \<Rightarrow> []
            | Some stopA \<Rightarrow>
               (case map_get (stops gtfs) (StopTime.stop_id s3) of
                  None \<Rightarrow> []
                | Some stopB \<Rightarrow> [movingPosition gtfs tripId now s2 s3 stopA stopB]))"
      by (simp add: pushedFor_def)
    have "status p = MOVING \<and>
            prevStop p = map_get (stops gtfs) (StopTime.stop_id s2) \<and>
            nextStop p = map_get (stops gtfs) (StopTime.stop_id s3)"
      if "p \<in> set positions" "TrainPosition.trip_id p = tripId" for p
      using mine [OF that] unfolding pf
      by (auto simp: movingPosition_def Let_def split: option.splits)
    with own pf show ?thesis by simp
  qed
  from one first three show ?thesis by blast
qed

theorem first_matching_segment_witness:
  "calculateTrainPositions exampleGtfs [''ab'', ''morning''] 31000 =
     Inr [movingPosition exampleGtfs ''morning'' 31000 (morning ! 1) (morning ! 2) exStopB exStopC] \<and>
   count_list [''ab'', ''morning''] ''morning'' = 1 \<and>
   wellFormed morning \<and> dep (morning ! 1) < 31000 \<and> 31000 < arr (morning ! 2) \<and>
   length (filter (\<lambda>p. TrainPosition.trip_id p = ''morning'')
     [movingPosition exampleGtfs ''morning'' 31000 (morning ! 1) (morning ! 2) exStopB exStopC]) \<le> 1 \<and>
   filter (\<lambda>p. TrainPosition.trip_id p = ''morning'')
     [movingPosition exampleGtfs ''morning'' 31000 (morning ! 1) (morning ! 2) exStopB exStopC] =
     [movingPosition exampleGtfs ''morning'' 31000 (morning ! 1) (morning ! 2) exStopB exStopC] \<and>
   status (movingPosition exampleGtfs ''morning'' 31000 (morning ! 1) (morning ! 2) exStopB exStopC)
     = MOVING \<and>
   prevStop (movingPosition exampleGtfs ''morning'' 31000 (morning ! 1) (morning ! 2) exStopB exStopC)
     = Some exStopB \<and>
   nextStop (movingPosition exampleGtfs ''morning'' 31000 (morning ! 1) (morning ! 2) exStopB exStopC)
     = Some exStopC"
proof -
  let ?p = "movingPosition exampleGtfs ''morning'' 31000 (morning ! 1) (morning ! 2) exStopB exStopC"
  have run: "calculateTrainPositions exampleGtfs [''ab'', ''morning''] 31000 = Inr [?p]"
    by (simp add: run_defs example_defs)
  have cnt: "count_list [''ab'', ''morning''] ''morning'' = 1"
    by simp
  have wf: "wellFormed morning" "dep (morning ! 1) < 31000" "31000 < arr (morning ! 2)"
    by (simp_all add: morning_def mkStopTime_def orZero_def)
  have tm: "map_get (stopTimes exampleGtfs) ''morning''
              = Some [morning ! 0, morning ! 1, morning ! 2]"
    by (simp add: map_get_def exampleGtfs_def morning_def)
  have wf3: "wellFormed [morning ! 0, morning ! 1, morning ! 2]"
    by (simp add: morning_def mkStopTime_def orZero_def)
  have id: "TrainPosition.trip_id ?p = ''morning''"
    by (simp add: movingPosition_def Let_def)
  have sb: "map_get (stops exampleGtfs) (StopTime.stop_id (morning ! 1)) = Some exStopB"
    and sc: "map_get (stops exampleGtfs) (StopTime.stop_id (morning ! 2)) = Some exStopC"
    by (simp_all add: map_get_def example_defs)
  from first_matching_segment [OF run cnt]
  have len: "length (filter (\<lambda>p. TrainPosition.trip_id p = ''morning'') [?p]) \<le> 1"
    and three: "\<And>s1 s2 s3.
       map_get (stopTimes exampleGtfs) ''morning'' = Some [s1, s2, s3] \<and> wellFormed [s1, s2, s3] \<and>
       dep s2 < 31000 \<and> 31000 < arr s3 \<Longrightarrow>
         filter (\<lambda>p. TrainPosition.trip_id p = ''morning'') [?p] =
           (case map_get (stops exampleGtfs) (StopTime.stop_id s2) of
              None \<Rightarrow> []
            | Some stopA \<Rightarrow>
               (case map_get (stops exampleGtfs) (StopTime.stop_id s3) of
                  None \<Rightarrow> []
                | Some stopB \<Rightarrow> [movingPosition exampleGtfs ''morning'' 31000 s2 s3 stopA stopB])) \<and>
         (\<forall>p \<in> set [?p]. TrainPosition.trip_id p = ''morning'' \<longrightarrow>
            status p = MOVING \<and>
            prevStop p = map_get (stops exampleGtfs) (StopTime.stop_id s2) \<and>
            nextStop p = map_get (stops exampleGtfs) (StopTime.stop_id s3))"
    by blast+
  from three [of "morning ! 0" "morning ! 1" "morning ! 2"] tm wf3 wf(2,3)
  have f: "filter (\<lambda>p. TrainPosition.trip_id p = ''morning'') [?p] = [?p]"
    and st: "status ?p = MOVING \<and> prevStop ?p = Some exStopB \<and> nextStop ?p = Some exStopC"
    using id sb sc by simp_all
  from run cnt wf len f st show ?thesis by blast
qed

lemma interpolate_Num: "interpolate (Num a) (Num b) (Num f) = Num (lerp a b f)"
  by (simp add: interpolate_def jadd_def jsub_def jmul_def lift2_def lerp_def)

lemma wellFormed_moving_first:
  assumes "wellFormed tms" and "i + 1 < length tms"
    and "dep (tms ! i) < now" and "now < arr (tms ! (i + 1))"
  shows "dep (tms ! 0) \<le> now"
    and "now \<le> arr (tms ! (length tms - 1))"
    and "\<forall>j<i. \<not> atStopCase now (tms ! j) \<and> \<not> movingCase now (tms ! j) (tms ! (j + 1))"
proof -
  have "dep (tms ! 0) \<le> dep (tms ! i)"
    using assms(1,2) by (intro wellFormed_dep_mono) auto
  with assms(3) show "dep (tms ! 0) \<le> now" by simp
  have "arr (tms ! (i + 1)) \<le> arr (tms ! (length tms - 1))"
    using assms(1,2) by (intro wellFormed_arr_mono) auto
  with assms(4) show "now \<le> arr (tms ! (length tms - 1))" by simp
  show "\<forall>j<i. \<not> atStopCase now (tms ! j) \<and> \<not> movingCase now (tms ! j) (tms ! (j + 1))"
  proof (intro allI impI)
    fix j assume j: "j < i"
    have "dep (tms ! j) \<le> dep (tms ! i)"
      using assms(1,2) j by (intro wellFormed_dep_mono) auto
    moreover have "arr (tms ! (j + 1)) \<le> dep (tms ! (j + 1))"
      using assms(1,2) j by (intro wellFormed_arr_dep) auto
    moreover have "dep (tms ! (j + 1)) \<le> dep (tms ! i)"
      using assms(1,2) j by (intro wellFormed_dep_mono) auto
    ultimately show "\<not> atStopCase now (tms ! j) \<and> \<not> movingCase now (tms ! j) (tms ! (j + 1))"
      using assms(3) by (simp add: atStopCase_def movingCase_def)
  qed
qed

text \<open>
  C5, as the code has it. The scan stops at the first index whose segment matches, so the
  segment i of the statement has to be that index: for a trip listed as active, at a time
  inside the trip window (first departure \<le> now \<le> last arrival), if no index before i
  has an at-stop or in-transit match, departure[i] < now < arrival[i+1] and both stops are
  in the stops table, then the trip has one position, in state MOVING, whose latitude and
  longitude are each the linear interpolation of the two stops' coordinates at the
  fraction f = (now - departure[i]) / (arrival[i+1] - departure[i]), with 0 < f < 1.
  Every well-formed trip meets the conditions on the window and on the earlier indices
  (\<open>wellFormed_moving_first\<close>).
\<close>

theorem moving_position_interpolated:
  assumes "map_get (stopTimes gtfs) tripId = Some tms"
    and "i + 1 < length tms"
    and "dep (tms ! 0) \<le> now" and "now \<le> arr (tms ! (length tms - 1))"
    and "\<forall>j<i. \<not> atStopCase now (tms ! j) \<and> \<not> movingCase now (tms ! j) (tms ! (j + 1))"
    and "dep (tms ! i) < now" and "now < arr (tms ! (i + 1))"
    and "map_get (stops gtfs) (StopTime.stop_id (tms ! i)) = Some stopA"
    and "map_get (stops gtfs) (StopTime.stop_id (tms ! (i + 1))) = Some stopB"
    and "tripId \<in> set activeTripIds"
  shows "\<exists>positions p.
     calculateTrainPositions gtfs activeTripIds now = Inr positions \<and>
     tripPositions gtfs tripId now = Inr [p] \<and>
     p \<in> set positions \<and>
     TrainPosition.trip_id p = tripId \<and>
     status p = MOVING \<and>
     prevStop p = Some stopA \<and> nextStop p = Some stopB \<and>
     0 < (now - dep (tms ! i)) / (arr (tms ! (i + 1)) - dep (tms ! i)) \<and>
     (now - dep (tms ! i)) / (arr (tms ! (i + 1)) - dep (tms ! i)) < 1 \<and>
     lat p = interpolate (stop_lat stopA) (stop_lat stopB)
               (Num ((now - dep (tms ! i)) / (arr (tms ! (i + 1)) - dep (tms ! i)))) \<and>
     lng p = interpolate (stop_lon stopA) (stop_lon stopB)
               (Num ((now - dep (tms ! i)) / (arr (tms ! (i + 1)) - dep (tms ! i)))) \<and>
     (\<forall>a b. stop_lat stopA = Num a \<and> stop_lat stopB = Num b \<longrightarrow>
        lat p = Num (a + (b - a) * ((now - dep (tms ! i)) / (arr (tms ! (i + 1)) - dep (tms ! i))))) \<and>
     (\<forall>a b. stop_lon stopA = Num a \<and> stop_lon stopB = Num b \<longrightarrow>
        lng p = Num (a + (b - a) * ((now - dep (tms ! i)) / (arr (tms ! (i + 1)) - dep (tms ! i)))))"
proof -
  let ?f = "(now - dep (tms ! i)) / (arr (tms ! (i + 1)) - dep (tms ! i))"
  let ?p = "movingPosition gtfs tripId now (tms ! i) (tms ! (i + 1)) stopA stopB"
  have mv: "movingCase now (tms ! i) (tms ! (i + 1))" and nat: "\<not> atStopCase now (tms ! i)"
    using assms(6,7) by (simp_all add: movingCase_def atStopCase_def)
  have step: "segmentStep gtfs tripId now (tms ! i) (tms ! (i + 1)) = Some [?p]"
    using mv nat assms(8,9) by (simp add: segmentStep_def)
  have before: "\<forall>j<i. segmentStep gtfs tripId now (tms ! j) (tms ! (j + 1)) = None"
    using assms(5) by (simp add: segmentStep_None)
  have trip: "tripPositions gtfs tripId now = Inr [?p]"
    using assms(1,2,3,4) step before by (rule tripPositions_first)
  then have "pushedFor gtfs now tripId = [?p]"
    by (simp add: pushedFor_def)
  then have mem: "?p \<in> set (concat (map (pushedFor gtfs now) activeTripIds))"
    using positions_of_listed_trip [OF assms(10), of gtfs now] by auto
  have frac: "0 < ?f" "?f < 1"
    using assms(6,7) by simp_all
  have la: "lat ?p = interpolate (stop_lat stopA) (stop_lat stopB) (Num ?f)"
    and lo: "lng ?p = interpolate (stop_lon stopA) (stop_lon stopB) (Num ?f)"
    and rest: "TrainPosition.trip_id ?p = tripId" "status ?p = MOVING"
      "prevStop ?p = Some stopA" "nextStop ?p = Some stopB"
    by (simp_all add: movingPosition_def Let_def)
  have la': "\<forall>a b. stop_lat stopA = Num a \<and> stop_lat stopB = Num b \<longrightarrow>
               lat ?p = Num (a + (b - a) * ?f)"
    using la by (auto simp: interpolate_Num lerp_def)
  have lo': "\<forall>a b. stop_lon stopA = Num a \<and> stop_lon stopB = Num b \<longrightarrow>
               lng ?p = Num (a + (b - a) * ?f)"
    using lo by (auto simp: interpolate_Num lerp_def)
  have run: "calculateTrainPositions gtfs activeTripIds now
               = Inr (concat (map (pushedFor gtfs now) activeTripIds))"
    by (rule calculateTrainPositions_eq)
  from run trip mem rest frac la lo la' lo' show ?thesis by blast
qed

theorem moving_position_interpolated_witness:
  "\<exists>p q.
     calculateTrainPositions exampleGtfs [''ab''] 1500 = Inr [p] \<and>
     status p = MOVING \<and> lat p = Num (405 / 10) \<and> lng p = Num (- 3) \<and>
     (1500 - dep (ab ! 0)) / (arr (ab ! 1) - dep (ab ! 0)) = 1 / 2 \<and>
     stop_lat exStopA = Num 40 \<and> stop_lon exStopA = Num (- 3) \<and>
     stop_lat exStopB = Num 41 \<and> stop_lon exStopB = Num (- 3) \<and>
     prevStop p = Some exStopA \<and> nextStop p = Some exStopB \<and>
     \<not> wellFormed blank \<and>
     calculateTrainPositions overlapGtfs [''blank''] 1500 = Inr [q] \<and>
     status q = MOVING \<and> prevStop q = Some exStopB \<and> nextStop q = Some exStopC \<and>
     (1500 - dep (blank ! 1)) / (arr (blank ! 2) - dep (blank ! 1)) = 3 / 4 \<and>
     lat q = Num (167 / 4) \<and> lng q = Num (- 27 / 8)"
proof -
  have tm: "map_get (stopTimes exampleGtfs) ''ab'' = Some ab"
    by (simp add: map_get_def exampleGtfs_def)
  have w: "0 + 1 < length ab" "dep (ab ! 0) \<le> 1500" "1500 \<le> arr (ab ! (length ab - 1))"
    "\<forall>j<0. \<not> atStopCase 1500 (ab ! j) \<and> \<not> movingCase 1500 (ab ! j) (ab ! (j + 1))"
    "dep (ab ! 0) < 1500" "1500 < arr (ab ! (0 + 1))"
    by (simp_all add: ab_def mkStopTime_def orZero_def)
  have sa: "map_get (stops exampleGtfs) (StopTime.stop_id (ab ! 0)) = Some exStopA"
    and sb: "map_get (stops exampleGtfs) (StopTime.stop_id (ab ! (0 + 1))) = Some exStopB"
    by (simp_all add: map_get_def exampleGtfs_def ab_def mkStopTime_def)
  have mem: "''ab'' \<in> set [''ab'']" by simp
  from moving_position_interpolated [OF tm w sa sb mem]
  obtain positions p where
    run: "calculateTrainPositions exampleGtfs [''ab''] 1500 = Inr positions"
    and one: "tripPositions exampleGtfs ''ab'' 1500 = Inr [p]"
    and p: "status p = MOVING" "prevStop p = Some exStopA" "nextStop p = Some exStopB"
    and pla: "\<forall>a b. stop_lat exStopA = Num a \<and> stop_lat exStopB = Num b \<longrightarrow>
        lat p = Num (a + (b - a) * ((1500 - dep (ab ! 0)) / (arr (ab ! (0 + 1)) - dep (ab ! 0))))"
    and plo: "\<forall>a b. stop_lon exStopA = Num a \<and> stop_lon exStopB = Num b \<longrightarrow>
        lng p = Num (a + (b - a) * ((1500 - dep (ab ! 0)) / (arr (ab ! (0 + 1)) - dep (ab ! 0))))"
    by blast
  from run one have run': "calculateTrainPositions exampleGtfs [''ab''] 1500 = Inr [p]"
    by (simp add: calculateTrainPositions_def)
  have fr: "(1500 - dep (ab ! 0)) / (arr (ab ! 1) - dep (ab ! 0)) = 1 / 2"
    by (simp add: ab_def mkStopTime_def orZero_def)
  have co: "stop_lat exStopA = Num 40" "stop_lon exStopA = Num (- 3)"
    "stop_lat exStopB = Num 41" "stop_lon exStopB = Num (- 3)"
    "stop_lat exStopC = Num 42" "stop_lon exStopC = Num (- 7 / 2)"
    by (simp_all add: exStopA_def exStopB_def exStopC_def mkStop_def)
  have dva: "dep (ab ! 0) = 1000" "arr (ab ! (0 + 1)) = 2000"
    by (simp_all add: ab_def mkStopTime_def orZero_def)
  from pla plo co dva have pl: "lat p = Num (405 / 10)" "lng p = Num (- 3)"
    by simp_all
  have tb: "map_get (stopTimes overlapGtfs) ''blank'' = Some blank"
    by (simp add: map_get_def overlapGtfs_def)
  have wb: "1 + 1 < length blank" "dep (blank ! 0) \<le> 1500"
    "1500 \<le> arr (blank ! (length blank - 1))"
    "\<forall>j<1. \<not> atStopCase 1500 (blank ! j) \<and> \<not> movingCase 1500 (blank ! j) (blank ! (j + 1))"
    "dep (blank ! 1) < 1500" "1500 < arr (blank ! (1 + 1))"
    by (simp_all add: blank_def mkStopTime_def orZero_def atStopCase_def movingCase_def)
  have nwf: "\<not> wellFormed blank"
    by (simp add: blank_def mkStopTime_def orZero_def)
  have qa: "map_get (stops overlapGtfs) (StopTime.stop_id (blank ! 1)) = Some exStopB"
    and qb: "map_get (stops overlapGtfs) (StopTime.stop_id (blank ! (1 + 1))) = Some exStopC"
    by (simp_all add: map_get_def overlapGtfs_def blank_def mkStopTime_def)
  have memb: "''blank'' \<in> set [''blank'']" by simp
  from moving_position_interpolated [OF tb wb qa qb memb]
  obtain positions' q where
    runq: "calculateTrainPositions overlapGtfs [''blank''] 1500 = Inr positions'"
    and oneq: "tripPositions overlapGtfs ''blank'' 1500 = Inr [q]"
    and q: "status q = MOVING" "prevStop q = Some exStopB" "nextStop q = Some exStopC"
    and qla: "\<forall>a b. stop_lat exStopB = Num a \<and> stop_lat exStopC = Num b \<longrightarrow>
        lat q = Num (a + (b - a) *
          ((1500 - dep (blank ! 1)) / (arr (blank ! (1 + 1)) - dep (blank ! 1))))"
    and qlo: "\<forall>a b. stop_lon exStopB = Num a \<and> stop_lon exStopC = Num b \<longrightarrow>
        lng q = Num (a + (b - a) *
          ((1500 - dep (blank ! 1)) / (arr (blank ! (1 + 1)) - dep (blank ! 1))))"
    by blast
  from runq oneq have runq': "calculateTrainPositions overlapGtfs [''blank''] 1500 = Inr [q]"
    by (simp add: calculateTrainPositions_def)
  have frq: "(1500 - dep (blank ! 1)) / (arr (blank ! 2) - dep (blank ! 1)) = 3 / 4"
    by (simp add: blank_def mkStopTime_def orZero_def)
  have dv: "dep (blank ! 1) = 0" "arr (blank ! (1 + 1)) = 2000"
    by (simp_all add: blank_def mkStopTime_def orZero_def)
  from qla qlo co dv have ql: "lat q = Num (167 / 4)" "lng q = Num (- 27 / 8)"
    by simp_all
  from run' p pl fr co(1-4) nwf runq' q frq ql show ?thesis by blast
qed

theorem moving_position_counterexample:
  "map_get (stopTimes overlapGtfs) ''overlap'' = Some overlap \<and>
   dep (overlap ! 1) < 50 \<and> 50 < arr (overlap ! 2) \<and>
   map_get (stops overlapGtfs) (StopTime.stop_id (overlap ! 1)) = Some exStopB \<and>
   map_get (stops overlapGtfs) (StopTime.stop_id (overlap ! 2)) = Some exStopC \<and>
   stop_lat exStopB = Num 41 \<and> stop_lat exStopC = Num 42 \<and>
   lerp 41 42 ((50 - dep (overlap ! 1)) / (arr (overlap ! 2) - dep (overlap ! 1))) = 657 / 16 \<and>
   calculateTrainPositions overlapGtfs [''overlap''] 50 =
     Inr [movingPosition overlapGtfs ''overlap'' 50 (overlap ! 0) (overlap ! 1) exStopA exStopB] \<and>
   prevStop (movingPosition overlapGtfs ''overlap'' 50 (overlap ! 0) (overlap ! 1) exStopA exStopB)
     = Some exStopA \<and>
   lat (movingPosition overlapGtfs ''overlap'' 50 (overlap ! 0) (overlap ! 1) exStopA exStopB)
     = Num (81 / 2) \<and>
   Num (657 / 16) \<notin>
     lat ` set [movingPosition overlapGtfs ''overlap'' 50 (overlap ! 0) (overlap ! 1)
                  exStopA exStopB]"
proof -
  let ?p = "movingPosition overlapGtfs ''overlap'' 50 (overlap ! 0) (overlap ! 1) exStopA exStopB"
  have a: "map_get (stopTimes overlapGtfs) ''overlap'' = Some overlap"
    by (simp add: map_get_def overlapGtfs_def)
  have b: "dep (overlap ! 1) < 50" "50 < arr (overlap ! 2)"
    "lerp 41 42 ((50 - dep (overlap ! 1)) / (arr (overlap ! 2) - dep (overlap ! 1))) = 657 / 16"
    by (simp_all add: overlap_def mkStopTime_def orZero_def lerp_def)
  have c: "map_get (stops overlapGtfs) (StopTime.stop_id (overlap ! 1)) = Some exStopB"
    "map_get (stops overlapGtfs) (StopTime.stop_id (overlap ! 2)) = Some exStopC"
    by (simp_all add: map_get_def overlapGtfs_def overlap_def mkStopTime_def)
  have d: "stop_lat exStopB = Num 41" "stop_lat exStopC = Num 42"
    by (simp_all add: exStopB_def exStopC_def mkStop_def)
  have run: "calculateTrainPositions overlapGtfs [''overlap''] 50 = Inr [?p]"
    by (simp add: run_defs overlapGtfs_def overlap_def mkStopTime_def exStopA_def exStopB_def
        exStopC_def mkStop_def)
  have e: "prevStop ?p = Some exStopA"
    by (simp add: movingPosition_def Let_def)
  have f: "lat ?p = Num (81 / 2)"
    by (simp add: movingPosition_def Let_def interpolate_def jadd_def jsub_def jmul_def lift2_def
        overlap_def mkStopTime_def orZero_def exStopA_def exStopB_def mkStop_def)
  then have g: "Num (657 / 16) \<notin> lat ` set [?p]" by simp
  from a b c d run e f g show ?thesis by blast
qed


text \<open>
  \<open>atan2 y x\<close> is the polar angle of the point \<open>(x, y)\<close>: with the bounds above, this
  determines it wherever the point is not the origin.
\<close>

lemma atan2_polar:
  "x = sqrt (x\<^sup>2 + y\<^sup>2) * cos (atan2 y x) \<and> y = sqrt (x\<^sup>2 + y\<^sup>2) * sin (atan2 y x)"
proof -
  let ?t = "y / x"
  let ?s = "sqrt (1 + ?t\<^sup>2)"
  have spos: "0 < ?s" by (simp add: add_pos_nonneg)
  have c: "cos (arctan ?t) = 1 / ?s" by (rule cos_arctan)
  have s: "sin (arctan ?t) = ?t / ?s" by (rule sin_arctan)
  have r: "sqrt (x\<^sup>2 + y\<^sup>2) = \<bar>x\<bar> * ?s" if "x \<noteq> 0"
  proof -
    have "x\<^sup>2 + y\<^sup>2 = x\<^sup>2 * (1 + ?t\<^sup>2)"
      using that by (simp add: field_simps power2_eq_square)
    then have "sqrt (x\<^sup>2 + y\<^sup>2) = sqrt (x\<^sup>2) * ?s"
      by (simp add: real_sqrt_mult)
    then show ?thesis by simp
  qed
  consider "0 < x" | "x < 0" "0 \<le> y" | "x < 0" "y < 0" | "x = 0" "0 < y" | "x = 0" "y < 0"
    | "x = 0" "y = 0"
    by linarith
  then show ?thesis
  proof cases
    case 1
    then have a: "atan2 y x = arctan ?t" by (simp add: atan2_def)
    from 1 have "sqrt (x\<^sup>2 + y\<^sup>2) = x * ?s" using r by simp
    with 1 spos show ?thesis by (simp add: a c s)
  next
    case 2
    then have a: "atan2 y x = arctan ?t + pi" by (simp add: atan2_def)
    from 2 have "sqrt (x\<^sup>2 + y\<^sup>2) = - x * ?s" using r by simp
    with 2 spos show ?thesis by (simp add: a c s)
  next
    case 3
    then have a: "atan2 y x = arctan ?t - pi" by (simp add: atan2_def)
    from 3 have "sqrt (x\<^sup>2 + y\<^sup>2) = - x * ?s" using r by simp
    with 3 spos show ?thesis by (simp add: a c s)
  next
    case 4
    then show ?thesis by (simp add: atan2_def)
  next
    case 5
    then show ?thesis by (simp add: atan2_def)
  next
    case 6
    then show ?thesis by (simp add: atan2_def)
  qed
qed

















lemma outside_window_no_position:
  assumes "map_get (stopTimes gtfs) tripId = Some tms" and "2 \<le> length tms"
    and "now < dep (tms ! 0) \<or> arr (tms ! (length tms - 1)) < now"
  shows "tripPositions gtfs tripId now = Inr []"
  using assms by (auto simp: tripPositions_def index_def)

lemma first_departure_at_stop:
  assumes "map_get (stopTimes gtfs) tripId = Some tms" and "2 \<le> length tms"
    and "arr (tms ! 0) \<le> dep (tms ! 0)"
    and "dep (tms ! 0) \<le> arr (tms ! (length tms - 1))"
    and "map_get (stops gtfs) (StopTime.stop_id (tms ! 0)) = Some stopInfo"
  shows "tripPositions gtfs tripId (dep (tms ! 0))
           = Inr [atStopPosition gtfs tripId (tms ! 0) (tms ! 1) stopInfo]"
proof -
  have "segmentStep gtfs tripId (dep (tms ! 0)) (tms ! 0) (tms ! (0 + 1))
          = Some [atStopPosition gtfs tripId (tms ! 0) (tms ! 1) stopInfo]"
    using assms(3,5) by (simp add: segmentStep_def atStopCase_def)
  with assms(1,2,4) show ?thesis
    by (intro tripPositions_first [where tms = tms and i = 0]) auto
qed

lemma last_arrival_no_position:
  assumes "map_get (stopTimes gtfs) tripId = Some tms" and "2 \<le> length tms"
    and "wellFormed tms"
    and "dep (tms ! (length tms - 2)) < arr (tms ! (length tms - 1))"
  shows "tripPositions gtfs tripId (arr (tms ! (length tms - 1))) = Inr []"
proof -
  let ?L = "arr (tms ! (length tms - 1))"
  have "segmentStep gtfs tripId ?L (tms ! j) (tms ! (j + 1)) = None"
    if "j + 1 < length tms" for j
  proof -
    have "dep (tms ! j) \<le> dep (tms ! (length tms - 2))"
      using assms(2,3) that by (intro wellFormed_dep_mono) auto
    with assms(4) have a: "dep (tms ! j) < ?L" by simp
    have b: "arr (tms ! (j + 1)) \<le> ?L"
      using assms(2,3) that by (intro wellFormed_arr_mono) auto
    from a b show ?thesis
      by (simp add: segmentStep_None atStopCase_def movingCase_def)
  qed
  then have "scanSegments gtfs tripId ?L tms 0 = Inr []"
    by (intro scanSegments_none) simp
  with assms(1) show ?thesis
    by (auto simp: tripPositions_def index_def)
qed

text \<open>
  C1, at the boundary instance: the trip \<open>morning\<close> has first departure 28800 and last
  arrival 32400, and its three stops are in the stops table. One second before and one
  second after the window there is no position, and at 28800 the train is AT_STOP at the
  first stop. At 32400 the output is empty as well: that instant passes the window check,
  but the scan ends at the last but one stop-time, so the last stop is never tested as an
  at-stop case, and no AT_STOP position at the last stop is produced.
\<close>

theorem trip_window_boundary:
  "dep (morning ! 0) = 28800 \<and> arr (morning ! 2) = 32400 \<and>
   map_get (stopTimes exampleGtfs) ''morning'' = Some morning \<and> wellFormed morning \<and>
   map_get (stops exampleGtfs) (StopTime.stop_id (morning ! 2)) = Some exStopC \<and>
   calculateTrainPositions exampleGtfs [''morning''] 28799 = Inr [] \<and>
   calculateTrainPositions exampleGtfs [''morning''] 28800 =
     Inr [atStopPosition exampleGtfs ''morning'' (morning ! 0) (morning ! 1) exStopA] \<and>
   status (atStopPosition exampleGtfs ''morning'' (morning ! 0) (morning ! 1) exStopA) = AT_STOP \<and>
   lat (atStopPosition exampleGtfs ''morning'' (morning ! 0) (morning ! 1) exStopA) = Num 40 \<and>
   lng (atStopPosition exampleGtfs ''morning'' (morning ! 0) (morning ! 1) exStopA) = Num (- 3) \<and>
   calculateTrainPositions exampleGtfs [''morning''] 32400 = Inr [] \<and>
   calculateTrainPositions exampleGtfs [''morning''] 32401 = Inr []"
  by (simp add: run_defs example_defs atStopPosition_def)

lemma checkCalendar_eq:
  "checkCalendar dt cal A = (if ruleMatches dt cal then insert (Calendar.service_id cal) A else A)"
  by (simp add: checkCalendar_def ruleMatches_def Let_def)

lemma fold_checkCalendar:
  "fold (checkCalendar dt) cals A =
     A \<union> {Calendar.service_id cal | cal. cal \<in> set cals \<and> ruleMatches dt cal}"
  by (induction cals arbitrary: A) (auto simp: checkCalendar_eq)

lemma standardCalendar_iff:
  "sid \<in> standardCalendar gtfs dt \<longleftrightarrow> activeByRule gtfs dt sid"
  by (auto simp: standardCalendar_def fold_checkCalendar activeByRule_def)

lemma checkException_other:
  "sid' \<noteq> sid \<Longrightarrow> sid' \<in> checkException dstr sid d A \<longleftrightarrow> sid' \<in> A"
  by (simp add: checkException_def)

lemma fold_checkException_other:
  "sid' \<noteq> sid \<Longrightarrow> sid' \<in> fold (checkException dstr sid) ds A \<longleftrightarrow> sid' \<in> A"
  by (induction ds arbitrary: A) (simp_all add: checkException_other)

lemma fold_checkException_same:
  "sid \<in> fold (checkException dstr sid) ds A \<longleftrightarrow>
     (if effective dstr ds = [] then sid \<in> A
      else exception_type (last (effective dstr ds)) = ''1'')"
proof (induction ds arbitrary: A)
  case Nil
  then show ?case by (simp add: effective_def)
next
  case (Cons d ds)
  show ?case
  proof (cases "effective dstr ds = []")
    case False
    then have "last (effective dstr (d # ds)) = last (effective dstr ds)"
      "effective dstr (d # ds) \<noteq> []"
      by (auto simp: effective_def)
    with False Cons.IH [of "checkException dstr sid d A"] show ?thesis by simp
  next
    case True
    then have "sid \<in> fold (checkException dstr sid) (d # ds) A
                 \<longleftrightarrow> sid \<in> checkException dstr sid d A"
      using Cons.IH [of "checkException dstr sid d A"] by simp
    also have "\<dots> \<longleftrightarrow> (if effective dstr (d # ds) = [] then sid \<in> A
      else exception_type (last (effective dstr (d # ds))) = ''1'')"
      using True by (auto simp: effective_def checkException_def)
    finally show ?thesis .
  qed
qed

lemma fold_checkExceptions:
  assumes "wf_map cds"
  shows "sid \<in> fold (checkExceptions dstr) cds A \<longleftrightarrow>
     (case map_get cds sid of
        None \<Rightarrow> sid \<in> A
      | Some ds \<Rightarrow>
          (if effective dstr ds = [] then sid \<in> A
           else exception_type (last (effective dstr ds)) = ''1''))"
  using assms
proof (induction cds arbitrary: A)
  case Nil
  then show ?case by (simp add: map_get_def)
next
  case (Cons entry rest)
  obtain k ds where entry: "entry = (k, ds)" by (cases entry)
  from Cons.prems have wf: "wf_map rest" and fresh: "k \<notin> fst ` set rest"
    by (auto simp: wf_map_def entry)
  let ?A = "fold (checkException dstr k) ds A"
  have step: "fold (checkExceptions dstr) (entry # rest) A = fold (checkExceptions dstr) rest ?A"
    by (simp add: checkExceptions_def entry)
  show ?case
  proof (cases "k = sid")
    case True
    with fresh have "map_get rest sid = None"
      by (simp add: map_get_def map_of_eq_None_iff)
    with Cons.IH [OF wf, of ?A] have "sid \<in> fold (checkExceptions dstr) rest ?A \<longleftrightarrow> sid \<in> ?A"
      by simp
    then have "sid \<in> fold (checkExceptions dstr) (entry # rest) A \<longleftrightarrow> sid \<in> ?A"
      by (simp only: step)
    moreover have "map_get (entry # rest) sid = Some ds"
      using True by (simp add: map_get_def entry)
    ultimately show ?thesis
      using True by (simp only: fold_checkException_same option.case)
  next
    case False
    then have "sid \<in> ?A \<longleftrightarrow> sid \<in> A"
      by (simp add: fold_checkException_other)
    moreover have "map_get (entry # rest) sid = map_get rest sid"
      using False by (simp add: map_get_def entry)
    moreover have "sid \<in> fold (checkExceptions dstr) (entry # rest) A
        \<longleftrightarrow> sid \<in> fold (checkExceptions dstr) rest ?A"
      by (simp only: step)
    ultimately show ?thesis
      using Cons.IH [OF wf, of ?A] by (simp split: option.splits)
  qed
qed

lemma fold_checkExceptions_absent:
  assumes "map_get cds sid = None"
  shows "sid \<in> fold (checkExceptions dstr) cds A \<longleftrightarrow> sid \<in> A"
  using assms
proof (induction cds arbitrary: A)
  case Nil
  then show ?case by simp
next
  case (Cons entry rest)
  then have "fst entry \<noteq> sid" and "map_get rest sid = None"
    by (auto simp: map_get_def split: if_splits)
  with Cons.IH [of "fold (checkException dstr (fst entry)) (snd entry) A"] show ?case
    by (simp add: checkExceptions_def fold_checkException_other)
qed

lemma activeServiceIds_iff:
  assumes "case calendarDates gtfs of None \<Rightarrow> True | Some cds \<Rightarrow> wf_map cds"
  shows "sid \<in> activeServiceIds gtfs dt \<longleftrightarrow>
     (case calendarDates gtfs of
        None \<Rightarrow> activeByRule gtfs dt sid
      | Some cds \<Rightarrow>
         (case map_get cds sid of
            None \<Rightarrow> activeByRule gtfs dt sid
          | Some ds \<Rightarrow>
              (if effective (dateStr dt) ds = [] then activeByRule gtfs dt sid
               else exception_type (last (effective (dateStr dt) ds)) = ''1'')))"
  using assms
  by (auto simp: activeServiceIds_def fold_checkExceptions standardCalendar_iff
      split: option.splits)

lemma activeServiceIds_no_exceptions:
  assumes "calendarDates gtfs = None \<or>
           (\<exists>cds. calendarDates gtfs = Some cds \<and> map_get cds sid = None)"
  shows "sid \<in> activeServiceIds gtfs dt \<longleftrightarrow> activeByRule gtfs dt sid"
  using assms
  by (auto simp: activeServiceIds_def fold_checkExceptions_absent standardCalendar_iff)

lemma set_getActiveTripsForToday:
  "set (getActiveTripsForToday gtfs dt) =
     Trip.trip_id ` {t \<in> set (map_values (trips gtfs)). Trip.service_id t \<in> activeServiceIds gtfs dt}"
  by (auto simp: getActiveTripsForToday_def)

lemmas date_defs = mkDate_def dateInt_def dateStr_def toString_def padStart_def
  natToString.simps digitChar_def parseInt_def trimStart.simps whiteSpace_def radixDigit_def digitValue_def
  todayStr_def days_def index_def
lemmas store_defs = exampleStore_def exampleCalendar_def exampleTrips_def exampleExceptions_def
  orderedExceptions_def permutedStore_def weekRule_def mkCalendar_def mkException_def mkTrip_def
lemmas resolver_defs = getActiveTripsForToday_def activeServiceIds_def standardCalendar_def
  map_values_def checkExceptions_def checkException_def checkCalendar_def geNum_def leNum_def
  calendarProperty_def

section \<open>Properties of the service resolver\<close>

text \<open>
  The flag the resolver reads, \<open>(cal as any)[days[date.getDay()]]\<close>, is the flag of the
  rule for the day of the week of the date.
\<close>

lemma calendarProperty_weekday:
  "calendarProperty cal (todayStr dt) = weekdayFlag cal (getDay dt)"
proof -
  consider "getDay dt = 0" | "getDay dt = 1" | "getDay dt = 2" | "getDay dt = 3"
    | "getDay dt = 4" | "getDay dt = 5" | "getDay dt = 6" | "7 \<le> getDay dt"
    by linarith
  then show ?thesis
    by cases
      (simp_all add: calendarProperty_def todayStr_def days_def index_def weekdayFlag_def)
qed

lemma digit_cases: "k < 10 \<Longrightarrow> k = 0 \<or> k = 1 \<or> k = 2 \<or> k = 3 \<or> k = 4 \<or> k = 5 \<or> k = 6 \<or> k = 7
    \<or> k = 8 \<or> k = (9::nat)"
  by arith

lemma radixDigit_digitChar: "k < 10 \<Longrightarrow> radixDigit 10 (digitChar k) = Some k"
  using digit_cases [of k] by (auto simp: digitChar_def radixDigit_def digitValue_def)

lemma digitChar_mem: "k < 10 \<Longrightarrow> digitChar k \<in> set ''0123456789''"
  using digit_cases [of k] by (auto simp: digitChar_def)

lemma natToString_digits: "set (natToString n) \<subseteq> set ''0123456789''"
proof (induction n rule: natToString.induct)
  case (1 n)
  show ?case
  proof (cases "n < 10")
    case True
    then show ?thesis
      using digitChar_mem [of n] by (subst natToString.simps) simp
  next
    case False
    then have "natToString n = natToString (n div 10) @ [digitChar (n mod 10)]"
      by (subst natToString.simps) simp
    moreover have "digitChar (n mod 10) \<in> set ''0123456789''"
      by (rule digitChar_mem) simp
    ultimately show ?thesis using 1 [OF False] by simp
  qed
qed

lemma natToString_nonempty: "natToString n \<noteq> []"
  by (subst natToString.simps) simp

lemma parseDigits_natToString:
  "parseDigits 10 (natToString n @ cs) acc =
     parseDigits 10 cs
       (Some ((case acc of None \<Rightarrow> 0 | Some a \<Rightarrow> a) * 10 ^ length (natToString n) + n))"
proof (induction n arbitrary: cs rule: natToString.induct)
  case (1 n)
  show ?case
  proof (cases "n < 10")
    case True
    then have "natToString n = [digitChar n]" by (subst natToString.simps) simp
    with True show ?thesis by (simp add: radixDigit_digitChar mult.commute)
  next
    case False
    then have eq: "natToString n = natToString (n div 10) @ [digitChar (n mod 10)]"
      by (subst natToString.simps) simp
    have d: "radixDigit 10 (digitChar (n mod 10)) = Some (n mod 10)"
      by (rule radixDigit_digitChar) simp
    have "parseDigits 10 (natToString n @ cs) acc
            = parseDigits 10 (natToString (n div 10) @ (digitChar (n mod 10) # cs)) acc"
      by (simp add: eq)
    also have "\<dots> = parseDigits 10 (digitChar (n mod 10) # cs)
        (Some ((case acc of None \<Rightarrow> 0 | Some a \<Rightarrow> a) * 10 ^ length (natToString (n div 10))
               + n div 10))"
      by (rule 1 [OF False])
    also have "\<dots> = parseDigits 10 cs
        (Some ((case acc of None \<Rightarrow> 0 | Some a \<Rightarrow> a) * 10 ^ length (natToString n) + n))"
      by (simp add: d eq algebra_simps)
    finally show ?thesis .
  qed
qed

lemma padStart_two:
  assumes "k < 100"
  shows "padStart (natToString k) 2 (CHR ''0'') = [digitChar (k div 10), digitChar (k mod 10)]"
proof (cases "k < 10")
  case True
  then have "natToString k = [digitChar k]" by (subst natToString.simps) simp
  with True show ?thesis by (simp add: padStart_def digitChar_def)
next
  case False
  with assms have "k div 10 < 10" by simp
  then have "natToString (k div 10) = [digitChar (k div 10)]" by (subst natToString.simps) simp
  with False have "natToString k = [digitChar (k div 10), digitChar (k mod 10)]"
    by (subst natToString.simps) simp
  then show ?thesis by (simp add: padStart_def)
qed

lemma trimStart_digit:
  assumes "c \<in> set ''0123456789''"
  shows "trimStart (c # cs) = c # cs"
proof -
  have first: "\<forall>w \<in> set whiteSpace. w \<noteq> [] \<and> hd w \<notin> set ''0123456789''"
    by (simp add: whiteSpace_def)
  have "take (length w) (c # cs) \<noteq> w" if "w \<in> set whiteSpace" for w
  proof
    assume eq: "take (length w) (c # cs) = w"
    from first that have ne: "w \<noteq> []" and hd: "hd w \<notin> set ''0123456789''" by auto
    from ne eq have "hd w = c" by (cases w) auto
    with hd assms show False by simp
  qed
  then have "find (\<lambda>w. take (length w) (c # cs) = w) whiteSpace = None"
    by (auto simp: find_None_iff)
  then show ?thesis by (subst trimStart.simps) simp
qed

lemma parseInt_digits:
  assumes "set s \<subseteq> set ''0123456789''" and "2 \<le> length s"
  shows "parseInt s = map_option int (parseDigits 10 s None)"
proof -
  from assms(2) obtain c d cs where s: "s = c # d # cs"
    by (cases s; cases "tl s") auto
  with assms(1) have c: "c \<in> set ''0123456789''" and d: "d \<in> set ''0123456789''"
    by auto
  have t: "trimStart (c # d # cs) = c # d # cs" using c by (rule trimStart_digit)
  have sign: "c \<noteq> CHR ''-''" "c \<noteq> CHR ''+''"
    using c by auto
  have hex: "d \<noteq> CHR ''x''" "d \<noteq> CHR ''X''"
    using d by auto
  show ?thesis
    unfolding s by (simp add: parseInt_def Let_def t sign hex split: option.splits)
qed

text \<open>
  The integer form of a date of a non-negative year is
  year * 10000 + month * 100 + day of the month, the months counted from 1.
\<close>

lemma dateInt_civil:
  assumes "0 \<le> getFullYear dt" and "getMonth dt < 99" and "getDate dt < 100"
  shows "dateInt dt = Some (yyyymmdd dt)"
proof -
  let ?y = "nat (getFullYear dt)" and ?m = "getMonth dt + 1" and ?d = "getDate dt"
  let ?tail = "[digitChar (?m div 10), digitChar (?m mod 10),
                digitChar (?d div 10), digitChar (?d mod 10)]"
  have m: "?m < 100" and d: "?d < 100" using assms(2,3) by simp_all
  have ys: "toString (getFullYear dt) = natToString ?y"
    using assms(1) by (simp add: toString_def)
  have ms: "toString (int (getMonth dt) + 1) = natToString ?m"
    by (simp add: toString_def nat_add_distrib)
  have ds: "toString (int (getDate dt)) = natToString ?d"
    by (simp add: toString_def)
  have str: "dateStr dt = natToString ?y @ ?tail"
    using padStart_two [OF m] padStart_two [OF d]
    by (simp add: dateStr_def Let_def ys ms ds)
  have r: "radixDigit 10 (digitChar (?m div 10)) = Some (?m div 10)"
    "radixDigit 10 (digitChar (?m mod 10)) = Some (?m mod 10)"
    "radixDigit 10 (digitChar (?d div 10)) = Some (?d div 10)"
    "radixDigit 10 (digitChar (?d mod 10)) = Some (?d mod 10)"
    using m d by (simp_all add: radixDigit_digitChar)
  have mem: "set ?tail \<subseteq> set ''0123456789''"
    using m d digitChar_mem [of "?m div 10"] digitChar_mem [of "?m mod 10"]
      digitChar_mem [of "?d div 10"] digitChar_mem [of "?d mod 10"]
    by simp
  have digits: "set (dateStr dt) \<subseteq> set ''0123456789''"
    unfolding str using natToString_digits [of ?y] mem by simp
  have len: "2 \<le> length (dateStr dt)" by (simp add: str)
  have head: "parseDigits 10 (dateStr dt) None = parseDigits 10 ?tail (Some ?y)"
    unfolding str by (simp add: parseDigits_natToString)
  have tail: "parseDigits 10 ?tail (Some ?y) =
      Some (10 * (10 * (10 * (10 * ?y + ?m div 10) + ?m mod 10) + ?d div 10) + ?d mod 10)"
    using r by simp
  have ring: "10 * (10 * (10 * (10 * y + a) + b) + c) + e
                = y * 10000 + (10 * a + b) * 100 + (10 * c + e)" for y a b c e :: nat
    by simp
  have val: "10 * (10 * (10 * (10 * ?y + ?m div 10) + ?m mod 10) + ?d div 10) + ?d mod 10
               = ?y * 10000 + ?m * 100 + ?d"
    by (simp only: ring mult_div_mod_eq)
  have "parseDigits 10 (dateStr dt) None = Some (?y * 10000 + ?m * 100 + ?d)"
    by (simp only: head tail val)
  then have "dateInt dt = Some (int (?y * 10000 + ?m * 100 + ?d))"
    by (simp add: dateInt_def parseInt_digits [OF digits len])
  then show ?thesis using assms(1) by (simp add: yyyymmdd_def)
qed

lemma ruleMatches_iff:
  assumes "parseInt (start_date cal) = Some s" and "parseInt (end_date cal) = Some e"
    and "dateInt dt = Some n"
  shows "ruleMatches dt cal \<longleftrightarrow> s \<le> n \<and> n \<le> e \<and> weekdayFlag cal (getDay dt) = Some ''1''"
  using assms by (simp add: ruleMatches_def geNum_def leNum_def calendarProperty_weekday)

lemma parseInt_20240101: "parseInt ''20240101'' = Some 20240101"
  by (simp add: parseInt_def trimStart.simps whiteSpace_def radixDigit_def digitValue_def)

lemma parseInt_20240107: "parseInt ''20240107'' = Some 20240107"
  by (simp add: parseInt_def trimStart.simps whiteSpace_def radixDigit_def digitValue_def)

text \<open>
  C4: the window of a weekly rule is inclusive at both ends. For a service with one rule,
  whose bounds parse to the integers s and e, and with no exception, and for a date of a
  year from 0 on: the service is active exactly when the YYYYMMDD integer n of the date
  has s \<le> n \<le> e and the flag of the rule for the day of the week of the date is 1. So
  with start_date 20240101, end_date 20240107 and that flag set, the service is active on
  20240101 and on 20240107 and inactive on 20231231 and on 20240108.
\<close>

theorem calendar_window_inclusive:
  assumes "cal \<in> set (map_values (calendar gtfs))"
    and "\<forall>c \<in> set (map_values (calendar gtfs)).
           Calendar.service_id c = Calendar.service_id cal \<longrightarrow> c = cal"
    and "calendarDates gtfs = None \<or>
         (\<exists>cds. calendarDates gtfs = Some cds \<and> map_get cds (Calendar.service_id cal) = None)"
    and "parseInt (start_date cal) = Some s" and "parseInt (end_date cal) = Some e"
    and "0 \<le> getFullYear dt" and "getMonth dt < 12" and "getDate dt \<le> 31"
  shows "(Calendar.service_id cal \<in> activeServiceIds gtfs dt \<longleftrightarrow>
            s \<le> yyyymmdd dt \<and> yyyymmdd dt \<le> e \<and> weekdayFlag cal (getDay dt) = Some ''1'') \<and>
         (start_date cal = ''20240101'' \<and> end_date cal = ''20240107'' \<and>
          weekdayFlag cal (getDay dt) = Some ''1'' \<longrightarrow>
            (yyyymmdd dt = 20240101 \<longrightarrow> Calendar.service_id cal \<in> activeServiceIds gtfs dt) \<and>
            (yyyymmdd dt = 20240107 \<longrightarrow> Calendar.service_id cal \<in> activeServiceIds gtfs dt) \<and>
            (yyyymmdd dt = 20231231 \<longrightarrow> Calendar.service_id cal \<notin> activeServiceIds gtfs dt) \<and>
            (yyyymmdd dt = 20240108 \<longrightarrow> Calendar.service_id cal \<notin> activeServiceIds gtfs dt))"
proof -
  have n: "dateInt dt = Some (yyyymmdd dt)"
    using assms(6,7,8) by (intro dateInt_civil) simp_all
  have rule: "activeByRule gtfs dt (Calendar.service_id cal) \<longleftrightarrow> ruleMatches dt cal"
    using assms(1,2) by (auto simp: activeByRule_def)
  have act: "Calendar.service_id cal \<in> activeServiceIds gtfs dt \<longleftrightarrow> ruleMatches dt cal"
    using activeServiceIds_no_exceptions [OF assms(3)] rule by simp
  have gen: "Calendar.service_id cal \<in> activeServiceIds gtfs dt \<longleftrightarrow>
            s \<le> yyyymmdd dt \<and> yyyymmdd dt \<le> e \<and> weekdayFlag cal (getDay dt) = Some ''1''"
    using act ruleMatches_iff [OF assms(4,5) n] by simp
  have inst: "(yyyymmdd dt = 20240101 \<longrightarrow> Calendar.service_id cal \<in> activeServiceIds gtfs dt) \<and>
            (yyyymmdd dt = 20240107 \<longrightarrow> Calendar.service_id cal \<in> activeServiceIds gtfs dt) \<and>
            (yyyymmdd dt = 20231231 \<longrightarrow> Calendar.service_id cal \<notin> activeServiceIds gtfs dt) \<and>
            (yyyymmdd dt = 20240108 \<longrightarrow> Calendar.service_id cal \<notin> activeServiceIds gtfs dt)"
    if h: "start_date cal = ''20240101'' \<and> end_date cal = ''20240107'' \<and>
          weekdayFlag cal (getDay dt) = Some ''1''"
  proof -
    from h assms(4) have s: "s = 20240101" by (simp add: parseInt_20240101)
    from h assms(5) have e: "e = 20240107" by (simp add: parseInt_20240107)
    from h show ?thesis by (simp add: gen s e)
  qed
  from gen inst show ?thesis by blast
qed

text \<open>The dates of the examples carry the day of the week of the calendar.\<close>

lemma example_dates:
  "mkDate 2024 1 1 1 = civilDate 2024 1 1 \<and> mkDate 2024 1 7 0 = civilDate 2024 1 7 \<and>
   mkDate 2023 12 31 0 = civilDate 2023 12 31 \<and> mkDate 2024 1 8 1 = civilDate 2024 1 8 \<and>
   mkDate 2024 1 2 2 = civilDate 2024 1 2 \<and> mkDate 2024 1 3 3 = civilDate 2024 1 3 \<and>
   mkDate 2024 1 4 4 = civilDate 2024 1 4 \<and> mkDate 2024 1 6 6 = civilDate 2024 1 6 \<and>
   mkDate 2024 2 14 3 = civilDate 2024 2 14 \<and> mkDate 2024 2 15 4 = civilDate 2024 2 15 \<and>
   mkDate 2024 2 16 5 = civilDate 2024 2 16"
  by (simp add: mkDate_def civilDate_def dayOfWeek_def)

theorem calendar_window_inclusive_witness:
  "dayOfWeek 2024 1 1 = 1 \<and> dayOfWeek 2024 1 7 = 0 \<and> dayOfWeek 2023 12 31 = 0 \<and>
   dayOfWeek 2024 1 8 = 1 \<and> dayOfWeek 2024 1 2 = 2 \<and>
   yyyymmdd (civilDate 2024 1 1) = 20240101 \<and> yyyymmdd (civilDate 2024 1 7) = 20240107 \<and>
   yyyymmdd (civilDate 2023 12 31) = 20231231 \<and> yyyymmdd (civilDate 2024 1 8) = 20240108 \<and>
   monday monSunRule = ''1'' \<and> sunday monSunRule = ''1'' \<and> tuesday monSunRule = ''0'' \<and>
   ''MS'' \<in> activeServiceIds monSunStore (civilDate 2024 1 1) \<and>
   ''MS'' \<in> activeServiceIds monSunStore (civilDate 2024 1 7) \<and>
   ''MS'' \<notin> activeServiceIds monSunStore (civilDate 2023 12 31) \<and>
   ''MS'' \<notin> activeServiceIds monSunStore (civilDate 2024 1 8) \<and>
   ''MS'' \<notin> activeServiceIds monSunStore (civilDate 2024 1 2) \<and>
   getActiveTripsForToday monSunStore (civilDate 2024 1 7) = [''ms''] \<and>
   getActiveTripsForToday monSunStore (civilDate 2024 1 8) = []"
proof -
  have mem: "monSunRule \<in> set (map_values (calendar monSunStore))"
    by (simp add: map_values_def monSunStore_def)
  have uniq: "\<forall>c \<in> set (map_values (calendar monSunStore)).
           Calendar.service_id c = Calendar.service_id monSunRule \<longrightarrow> c = monSunRule"
    by (simp add: map_values_def monSunStore_def)
  have noex: "calendarDates monSunStore = None \<or>
         (\<exists>cds. calendarDates monSunStore = Some cds \<and>
                map_get cds (Calendar.service_id monSunRule) = None)"
    by (simp add: monSunStore_def)
  have st: "parseInt (start_date monSunRule) = Some 20240101"
    and en: "parseInt (end_date monSunRule) = Some 20240107"
    by (simp_all add: monSunRule_def parseInt_20240101 parseInt_20240107)
  have sid: "Calendar.service_id monSunRule = ''MS''"
    and fl: "monday monSunRule = ''1''" "sunday monSunRule = ''1''" "tuesday monSunRule = ''0''"
    by (simp_all add: monSunRule_def)
  have dw: "dayOfWeek 2024 1 1 = 1" "dayOfWeek 2024 1 7 = 0" "dayOfWeek 2023 12 31 = 0"
    "dayOfWeek 2024 1 8 = 1" "dayOfWeek 2024 1 2 = 2"
    by (simp_all add: dayOfWeek_def)
  have ymd: "yyyymmdd (civilDate 2024 1 1) = 20240101" "yyyymmdd (civilDate 2024 1 7) = 20240107"
    "yyyymmdd (civilDate 2023 12 31) = 20231231" "yyyymmdd (civilDate 2024 1 8) = 20240108"
    "yyyymmdd (civilDate 2024 1 2) = 20240102"
    by (simp_all add: yyyymmdd_def civilDate_def)
  have w: "''MS'' \<in> activeServiceIds monSunStore (civilDate y m d) \<longleftrightarrow>
             20240101 \<le> yyyymmdd (civilDate y m d) \<and> yyyymmdd (civilDate y m d) \<le> 20240107 \<and>
             weekdayFlag monSunRule (dayOfWeek y m d) = Some ''1''"
    if "0 \<le> y" "m - 1 < 12" "d \<le> 31" for y m d
    using calendar_window_inclusive [OF mem uniq noex st en, of "civilDate y m d"] that
    by (simp add: sid civilDate_def)
  have a1: "''MS'' \<in> activeServiceIds monSunStore (civilDate 2024 1 1)"
    using w [of 2024 1 1] ymd dw fl by (simp add: weekdayFlag_def)
  have a2: "''MS'' \<in> activeServiceIds monSunStore (civilDate 2024 1 7)"
    using w [of 2024 1 7] ymd dw fl by (simp add: weekdayFlag_def)
  have a3: "''MS'' \<notin> activeServiceIds monSunStore (civilDate 2023 12 31)"
    using w [of 2023 12 31] ymd dw fl by (simp add: weekdayFlag_def)
  have a4: "''MS'' \<notin> activeServiceIds monSunStore (civilDate 2024 1 8)"
    using w [of 2024 1 8] ymd dw fl by (simp add: weekdayFlag_def)
  have a5: "''MS'' \<notin> activeServiceIds monSunStore (civilDate 2024 1 2)"
    using w [of 2024 1 2] ymd dw fl by (simp add: weekdayFlag_def)
  have t1: "getActiveTripsForToday monSunStore (civilDate 2024 1 7) = [''ms'']"
    using a2 by (simp add: getActiveTripsForToday_def map_values_def monSunStore_def mkTrip_def)
  have t2: "getActiveTripsForToday monSunStore (civilDate 2024 1 8) = []"
    using a4 by (simp add: getActiveTripsForToday_def map_values_def monSunStore_def mkTrip_def)
  from dw ymd(1-4) fl a1 a2 a3 a4 a5 t1 t2 show ?thesis by simp
qed

text \<open>
  C3: the exceptions are applied after the weekly-rule scan and whatever its outcome. For
  a service with exception list ds and a query date: an ADDED entry on the date, with no
  REMOVED entry on it, makes the service active; a REMOVED entry on the date, with no
  ADDED entry on it, makes it inactive; with no entry of either type on the date the rule
  scan decides. So a service without any rule and with one ADDED exception is active on
  the date of the exception and on no other date, and a service with one REMOVED exception
  is inactive on that date and active on every other date its rule matches.
\<close>

theorem exceptions_override_rules:
  assumes "calendarDates gtfs = Some cds" and "wf_map cds" and "map_get cds sid = Some ds"
  shows
    "activeServiceIds gtfs dt
       = fold (checkExceptions (dateStr dt)) cds (standardCalendar gtfs dt) \<and>
     checkException (dateStr dt) sid d (checkException (dateStr dt) sid d A)
       = checkException (dateStr dt) sid d A \<and>
     ((\<exists>x \<in> set ds. date x = dateStr dt \<and> exception_type x = ''1'') \<and>
      (\<forall>x \<in> set ds. date x = dateStr dt \<longrightarrow> exception_type x \<noteq> ''2'')
        \<longrightarrow> sid \<in> activeServiceIds gtfs dt) \<and>
     ((\<exists>x \<in> set ds. date x = dateStr dt \<and> exception_type x = ''2'') \<and>
      (\<forall>x \<in> set ds. date x = dateStr dt \<longrightarrow> exception_type x \<noteq> ''1'')
        \<longrightarrow> sid \<notin> activeServiceIds gtfs dt) \<and>
     ((\<forall>x \<in> set ds. date x = dateStr dt \<longrightarrow> exception_type x \<noteq> ''1'' \<and> exception_type x \<noteq> ''2'')
        \<longrightarrow> (sid \<in> activeServiceIds gtfs dt \<longleftrightarrow> activeByRule gtfs dt sid)) \<and>
     (ds = [d] \<and> exception_type d = ''1'' \<and>
      (\<forall>cal \<in> set (map_values (calendar gtfs)). Calendar.service_id cal \<noteq> sid)
        \<longrightarrow> (sid \<in> activeServiceIds gtfs dt \<longleftrightarrow> dateStr dt = date d)) \<and>
     (ds = [d] \<and> exception_type d = ''2''
        \<longrightarrow> (sid \<in> activeServiceIds gtfs dt \<longleftrightarrow> activeByRule gtfs dt sid \<and> dateStr dt \<noteq> date d))"
proof -
  have wf: "case calendarDates gtfs of None \<Rightarrow> True | Some cds \<Rightarrow> wf_map cds"
    using assms(1,2) by simp
  have iff: "sid \<in> activeServiceIds gtfs dt \<longleftrightarrow>
      (if effective (dateStr dt) ds = [] then activeByRule gtfs dt sid
       else exception_type (last (effective (dateStr dt) ds)) = ''1'')"
    using activeServiceIds_iff [OF wf, of sid dt] assms(1,3) by simp
  have c1: "activeServiceIds gtfs dt
       = fold (checkExceptions (dateStr dt)) cds (standardCalendar gtfs dt)"
    using assms(1) by (simp add: activeServiceIds_def)
  have c2: "checkException (dateStr dt) sid d (checkException (dateStr dt) sid d A)
       = checkException (dateStr dt) sid d A"
    by (auto simp: checkException_def)
  have c3: "sid \<in> activeServiceIds gtfs dt"
    if "(\<exists>x \<in> set ds. date x = dateStr dt \<and> exception_type x = ''1'') \<and>
        (\<forall>x \<in> set ds. date x = dateStr dt \<longrightarrow> exception_type x \<noteq> ''2'')"
  proof -
    from that have ne: "effective (dateStr dt) ds \<noteq> []"
      by (auto simp: effective_def filter_empty_conv)
    then have "last (effective (dateStr dt) ds) \<in> set (effective (dateStr dt) ds)"
      by (rule last_in_set)
    with that have "exception_type (last (effective (dateStr dt) ds)) = ''1''"
      by (auto simp: effective_def)
    with ne iff show ?thesis by simp
  qed
  have c4: "sid \<notin> activeServiceIds gtfs dt"
    if "(\<exists>x \<in> set ds. date x = dateStr dt \<and> exception_type x = ''2'') \<and>
        (\<forall>x \<in> set ds. date x = dateStr dt \<longrightarrow> exception_type x \<noteq> ''1'')"
  proof -
    from that have ne: "effective (dateStr dt) ds \<noteq> []"
      by (auto simp: effective_def filter_empty_conv)
    then have "last (effective (dateStr dt) ds) \<in> set (effective (dateStr dt) ds)"
      by (rule last_in_set)
    with that have "exception_type (last (effective (dateStr dt) ds)) \<noteq> ''1''"
      by (auto simp: effective_def)
    with ne iff show ?thesis by simp
  qed
  have c5: "sid \<in> activeServiceIds gtfs dt \<longleftrightarrow> activeByRule gtfs dt sid"
    if "\<forall>x \<in> set ds. date x = dateStr dt \<longrightarrow> exception_type x \<noteq> ''1'' \<and> exception_type x \<noteq> ''2''"
  proof -
    from that have "effective (dateStr dt) ds = []"
      by (auto simp: effective_def filter_empty_conv)
    with iff show ?thesis by simp
  qed
  have c6: "sid \<in> activeServiceIds gtfs dt \<longleftrightarrow> dateStr dt = date d"
    if "ds = [d] \<and> exception_type d = ''1'' \<and>
      (\<forall>cal \<in> set (map_values (calendar gtfs)). Calendar.service_id cal \<noteq> sid)"
  proof -
    from that have "\<not> activeByRule gtfs dt sid" by (auto simp: activeByRule_def)
    with that iff show ?thesis by (auto simp: effective_def)
  qed
  have c7: "sid \<in> activeServiceIds gtfs dt \<longleftrightarrow> activeByRule gtfs dt sid \<and> dateStr dt \<noteq> date d"
    if "ds = [d] \<and> exception_type d = ''2''"
    using that iff by (auto simp: effective_def)
  from c1 c2 c3 c4 c5 c6 c7 show ?thesis by blast
qed

theorem exceptions_override_rules_witness:
  "dateStr (mkDate 2024 2 15 4) = ''20240215'' \<and>
   ''XM'' \<in> activeServiceIds (exampleStore (Some exampleExceptions)) (mkDate 2024 2 15 4) \<and>
   ''XM'' \<notin> activeServiceIds (exampleStore (Some exampleExceptions)) (mkDate 2024 2 14 3) \<and>
   ''XM'' \<notin> activeServiceIds (exampleStore (Some exampleExceptions)) (mkDate 2024 2 16 5) \<and>
   dateStr (mkDate 2024 1 3 3) = ''20240103'' \<and>
   activeByRule (exampleStore (Some exampleExceptions)) (mkDate 2024 1 3 3) ''WK'' \<and>
   ''WK'' \<notin> activeServiceIds (exampleStore (Some exampleExceptions)) (mkDate 2024 1 3 3) \<and>
   ''WK'' \<in> activeServiceIds (exampleStore (Some exampleExceptions)) (mkDate 2024 1 2 2) \<and>
   ''WK'' \<in> activeServiceIds (exampleStore (Some exampleExceptions)) (mkDate 2024 1 4 4) \<and>
   getActiveTripsForToday (exampleStore (Some exampleExceptions)) (mkDate 2024 2 15 4)
     = [''extra''] \<and>
   getActiveTripsForToday (exampleStore (Some exampleExceptions)) (mkDate 2024 1 3 3) = []"
proof -
  let ?g = "exampleStore (Some exampleExceptions)"
  let ?xm = "mkException ''XM'' ''20240215'' ''1''"
  let ?wk = "mkException ''WK'' ''20240103'' ''2''"
  have cd: "calendarDates ?g = Some exampleExceptions"
    by (simp add: exampleStore_def)
  have wf: "wf_map exampleExceptions"
    by (simp add: wf_map_def exampleExceptions_def)
  have gx: "map_get exampleExceptions ''XM'' = Some [?xm]"
    and gw: "map_get exampleExceptions ''WK'' = Some [?wk]"
    by (simp_all add: map_get_def exampleExceptions_def)
  have norule: "\<forall>cal \<in> set (map_values (calendar ?g)). Calendar.service_id cal \<noteq> ''XM''"
    by (simp add: map_values_def store_defs)
  have s: "dateStr (mkDate 2024 2 15 4) = ''20240215''" "dateStr (mkDate 2024 2 14 3) = ''20240214''"
    "dateStr (mkDate 2024 2 16 5) = ''20240216''" "dateStr (mkDate 2024 1 3 3) = ''20240103''"
    "dateStr (mkDate 2024 1 2 2) = ''20240102''" "dateStr (mkDate 2024 1 4 4) = ''20240104''"
    by (simp_all add: date_defs)
  have r: "activeByRule ?g (mkDate 2024 1 3 3) ''WK''" "activeByRule ?g (mkDate 2024 1 2 2) ''WK''"
    "activeByRule ?g (mkDate 2024 1 4 4) ''WK''"
    by (simp_all add: activeByRule_def map_values_def exampleStore_def exampleCalendar_def)
      (simp_all add: ruleMatches_def geNum_def leNum_def calendarProperty_def date_defs
        store_defs)
  have tx: "exception_type ?xm = ''1''" "date ?xm = ''20240215''"
    and tw: "exception_type ?wk = ''2''" "date ?wk = ''20240103''"
    by (simp_all add: mkException_def)
  have x: "''XM'' \<in> activeServiceIds ?g dt \<longleftrightarrow> dateStr dt = date ?xm" for dt
    using exceptions_override_rules [OF cd wf gx, of dt ?xm] tx(1) norule by blast
  have k: "''WK'' \<in> activeServiceIds ?g dt \<longleftrightarrow> activeByRule ?g dt ''WK'' \<and> dateStr dt \<noteq> date ?wk"
    for dt
    using exceptions_override_rules [OF cd wf gw, of dt ?wk] tw(1) by blast
  have x1: "''XM'' \<in> activeServiceIds ?g (mkDate 2024 2 15 4)"
    and x2: "''XM'' \<notin> activeServiceIds ?g (mkDate 2024 2 14 3)"
    and x3: "''XM'' \<notin> activeServiceIds ?g (mkDate 2024 2 16 5)"
    using x [of "mkDate 2024 2 15 4"] x [of "mkDate 2024 2 14 3"] x [of "mkDate 2024 2 16 5"]
      s(1,2,3) tx(2) by simp_all
  have k1: "''WK'' \<notin> activeServiceIds ?g (mkDate 2024 1 3 3)"
    and k2: "''WK'' \<in> activeServiceIds ?g (mkDate 2024 1 2 2)"
    and k3: "''WK'' \<in> activeServiceIds ?g (mkDate 2024 1 4 4)"
    using k [of "mkDate 2024 1 3 3"] k [of "mkDate 2024 1 2 2"] k [of "mkDate 2024 1 4 4"]
      s(4,5,6) tw(2) r by simp_all
  have t1: "getActiveTripsForToday ?g (mkDate 2024 2 15 4) = [''extra'']"
    by (simp add: resolver_defs date_defs store_defs)
  have t2: "getActiveTripsForToday ?g (mkDate 2024 1 3 3) = []"
    by (simp add: resolver_defs date_defs store_defs)
  from s(1,4) r(1) x1 x2 x3 k1 k2 k3 t1 t2 show ?thesis by simp
qed

lemma map_of_push_entry:
  "map_of (map (\<lambda>entry. if fst entry = sid then (fst entry, snd entry @ [cd]) else entry) xs) k
     = (if k = sid then map_option (\<lambda>v. v @ [cd]) (map_of xs k) else map_of xs k)"
  by (induction xs) auto

lemma keys_push_entry:
  "map fst (map (\<lambda>entry. if fst entry = sid then (fst entry, snd entry @ [cd]) else entry) xs)
     = map fst xs"
  by (induction xs) auto

lemma keys_pushCalendarDate:
  "map fst (pushCalendarDate cd m) =
     (if map_get m (CalendarDate.service_id cd) = None
      then map fst m @ [CalendarDate.service_id cd] else map fst m)"
  unfolding pushCalendarDate_def Let_def keys_push_entry by simp

lemma wf_map_pushCalendarDate:
  assumes "wf_map m"
  shows "wf_map (pushCalendarDate cd m)"
proof -
  have "CalendarDate.service_id cd \<notin> set (map fst m)"
    if "map_get m (CalendarDate.service_id cd) = None"
    using that by (simp add: map_get_def map_of_eq_None_iff)
  with assms show ?thesis
    unfolding wf_map_def keys_pushCalendarDate by simp
qed

lemma map_get_pushCalendarDate:
  "map_get (pushCalendarDate cd m) k =
     (if k = CalendarDate.service_id cd
      then Some ((case map_get m k of None \<Rightarrow> [] | Some v \<Rightarrow> v) @ [cd])
      else map_get m k)"
  by (auto simp: pushCalendarDate_def Let_def map_get_def map_of_push_entry map_add_def
      split: option.splits)

lemma wf_map_fold_push: "wf_map m \<Longrightarrow> wf_map (fold pushCalendarDate raw m)"
  by (induction raw arbitrary: m) (simp_all add: wf_map_pushCalendarDate)

lemma map_get_fold_push:
  "map_get (fold pushCalendarDate raw m) k =
     (case map_get m k of
        None \<Rightarrow> (if filter (\<lambda>cd. CalendarDate.service_id cd = k) raw = [] then None
                 else Some (filter (\<lambda>cd. CalendarDate.service_id cd = k) raw))
      | Some v \<Rightarrow> Some (v @ filter (\<lambda>cd. CalendarDate.service_id cd = k) raw))"
proof (induction raw arbitrary: m)
  case Nil
  then show ?case by (simp split: option.splits)
next
  case (Cons cd raw)
  show ?case
    by (simp add: Cons.IH map_get_pushCalendarDate split: option.splits)
qed

lemma wf_map_groupCalendarDates: "wf_map (groupCalendarDates raw)"
  unfolding groupCalendarDates_def by (rule wf_map_fold_push) (simp add: wf_map_def)

lemma map_get_groupCalendarDates:
  "map_get (groupCalendarDates raw) sid = Some ds \<Longrightarrow>
     ds = filter (\<lambda>cd. CalendarDate.service_id cd = sid) raw"
proof -
  assume a: "map_get (groupCalendarDates raw) sid = Some ds"
  have "map_get [] sid = (None :: CalendarDate list option)" by (simp add: map_get_def)
  with a show ?thesis
    by (auto simp: groupCalendarDates_def map_get_fold_push split: if_splits)
qed

text \<open>
  C10: when a service has several exceptions on the query date, they are applied in the
  order of its exception list, which is the order of the rows of the file; the last entry
  on that date of type ADDED or REMOVED decides whether the service is active, whatever
  the weekly rules say.
\<close>

theorem last_exception_decides:
  assumes "calendarDates gtfs = Some cds" and "wf_map cds" and "map_get cds sid = Some ds"
    and "effective (dateStr dt) ds \<noteq> []"
  shows "(sid \<in> activeServiceIds gtfs dt
            \<longleftrightarrow> exception_type (last (effective (dateStr dt) ds)) = ''1'') \<and>
         (cds = groupCalendarDates raw
            \<longrightarrow> ds = filter (\<lambda>cd. CalendarDate.service_id cd = sid) raw)"
proof -
  have wf: "case calendarDates gtfs of None \<Rightarrow> True | Some cds \<Rightarrow> wf_map cds"
    using assms(1,2) by simp
  have "sid \<in> activeServiceIds gtfs dt
          \<longleftrightarrow> exception_type (last (effective (dateStr dt) ds)) = ''1''"
    using activeServiceIds_iff [OF wf, of sid dt] assms(1,3,4) by simp
  moreover have "ds = filter (\<lambda>cd. CalendarDate.service_id cd = sid) raw"
    if "cds = groupCalendarDates raw"
    using that assms(3) by (simp add: map_get_groupCalendarDates)
  ultimately show ?thesis by blast
qed

theorem last_exception_decides_witness:
  "groupCalendarDates
     [mkException ''XM'' ''20240215'' ''1'', mkException ''SA'' ''20240215'' ''2'',
      mkException ''XM'' ''20240215'' ''2'', mkException ''SA'' ''20240215'' ''1'']
     = orderedExceptions \<and>
   dateStr (mkDate 2024 2 15 4) = ''20240215'' \<and>
   effective ''20240215'' [mkException ''XM'' ''20240215'' ''1'', mkException ''XM'' ''20240215'' ''2'']
     = [mkException ''XM'' ''20240215'' ''1'', mkException ''XM'' ''20240215'' ''2''] \<and>
   ''XM'' \<notin> activeServiceIds (exampleStore (Some orderedExceptions)) (mkDate 2024 2 15 4) \<and>
   effective ''20240215'' [mkException ''SA'' ''20240215'' ''2'', mkException ''SA'' ''20240215'' ''1'']
     = [mkException ''SA'' ''20240215'' ''2'', mkException ''SA'' ''20240215'' ''1''] \<and>
   \<not> activeByRule (exampleStore (Some orderedExceptions)) (mkDate 2024 2 15 4) ''SA'' \<and>
   ''SA'' \<in> activeServiceIds (exampleStore (Some orderedExceptions)) (mkDate 2024 2 15 4) \<and>
   getActiveTripsForToday (exampleStore (Some orderedExceptions)) (mkDate 2024 2 15 4) = [''ab'']"
proof -
  let ?g = "exampleStore (Some orderedExceptions)"
  let ?dt = "mkDate 2024 2 15 4"
  let ?xs = "[mkException ''XM'' ''20240215'' ''1'', mkException ''XM'' ''20240215'' ''2'']"
  let ?ss = "[mkException ''SA'' ''20240215'' ''2'', mkException ''SA'' ''20240215'' ''1'']"
  have grp: "groupCalendarDates
     [mkException ''XM'' ''20240215'' ''1'', mkException ''SA'' ''20240215'' ''2'',
      mkException ''XM'' ''20240215'' ''2'', mkException ''SA'' ''20240215'' ''1'']
     = orderedExceptions"
    by (simp add: groupCalendarDates_def pushCalendarDate_def map_get_def Let_def
        orderedExceptions_def mkException_def)
  have s: "dateStr ?dt = ''20240215''" by (simp add: date_defs)
  have cd: "calendarDates ?g = Some orderedExceptions" by (simp add: exampleStore_def)
  have wf: "wf_map orderedExceptions" by (simp add: wf_map_def orderedExceptions_def)
  have gx: "map_get orderedExceptions ''XM'' = Some ?xs"
    and gs: "map_get orderedExceptions ''SA'' = Some ?ss"
    by (simp_all add: map_get_def orderedExceptions_def)
  have ex: "effective ''20240215'' ?xs = ?xs" and es: "effective ''20240215'' ?ss = ?ss"
    by (simp_all add: effective_def mkException_def)
  have nx: "effective (dateStr ?dt) ?xs \<noteq> []" and ns: "effective (dateStr ?dt) ?ss \<noteq> []"
    by (simp_all only: s ex es) simp_all
  have x: "''XM'' \<notin> activeServiceIds ?g ?dt"
    using last_exception_decides [OF cd wf gx nx] by (simp only: s ex) (simp add: mkException_def)
  have sa: "''SA'' \<in> activeServiceIds ?g ?dt"
    using last_exception_decides [OF cd wf gs ns] by (simp only: s es) (simp add: mkException_def)
  have nr: "\<not> activeByRule ?g ?dt ''SA''"
    by (simp add: activeByRule_def map_values_def exampleStore_def exampleCalendar_def)
      (simp add: ruleMatches_def geNum_def leNum_def calendarProperty_def date_defs store_defs)
  have t: "getActiveTripsForToday ?g ?dt = [''ab'']"
    by (simp add: resolver_defs date_defs store_defs)
  from grp s ex x es nr sa t show ?thesis by blast
qed

lemma sameStore_active:
  assumes "wf_store g1" and "wf_store g2" and "sameStore g1 g2"
  shows "sid \<in> activeServiceIds g1 dt \<longleftrightarrow> sid \<in> activeServiceIds g2 dt"
proof -
  have "set (map_values (calendar g1)) = set (map_values (calendar g2))"
    using assms(3) by (simp add: sameStore_def map_values_def)
  then have rule: "activeByRule g1 dt sid \<longleftrightarrow> activeByRule g2 dt sid"
    by (simp add: activeByRule_def)
  have wf1: "case calendarDates g1 of None \<Rightarrow> True | Some cds \<Rightarrow> wf_map cds"
    and wf2: "case calendarDates g2 of None \<Rightarrow> True | Some cds \<Rightarrow> wf_map cds"
    using assms(1,2) by (simp_all add: wf_store_def)
  from assms(3) have same: "map_option set (calendarDates g1) = map_option set (calendarDates g2)"
    by (simp add: sameStore_def)
  show ?thesis
  proof (cases "calendarDates g1")
    case None
    with same have "calendarDates g2 = None" by simp
    with None rule show ?thesis
      by (simp add: activeServiceIds_iff [OF wf1] activeServiceIds_iff [OF wf2])
  next
    case (Some c1)
    with same obtain c2 where c2: "calendarDates g2 = Some c2" and eq: "set c1 = set c2"
      by (cases "calendarDates g2") auto
    from Some c2 wf1 wf2 have "distinct (map fst c1)" "distinct (map fst c2)"
      by (simp_all add: wf_map_def)
    with eq have "map_of c1 = map_of c2"
      by (simp add: map_of_inject_set)
    then have "map_get c1 sid = map_get c2 sid" by (simp add: map_get_def)
    with Some c2 rule show ?thesis
      by (simp add: activeServiceIds_iff [OF wf1] activeServiceIds_iff [OF wf2]
          split: option.splits)
  qed
qed

text \<open>
  C8: the resolver is deterministic. Its result is a function of the store and the date,
  and as a set it depends on the tables only through their entries: two identical stores,
  or two stores with unique exception keys whose tables hold the same entries in any
  insertion order, give on the same date active-trip lists that are equal as sets.
\<close>

theorem resolver_deterministic:
  assumes "g1 = g2 \<or> (wf_store g1 \<and> wf_store g2 \<and> sameStore g1 g2)"
  shows "set (getActiveTripsForToday g1 dt) = set (getActiveTripsForToday g2 dt)"
  using assms
proof
  assume "g1 = g2"
  then show ?thesis by simp
next
  assume h: "wf_store g1 \<and> wf_store g2 \<and> sameStore g1 g2"
  then have "set (map_values (trips g1)) = set (map_values (trips g2))"
    by (simp add: sameStore_def map_values_def)
  moreover have "activeServiceIds g1 dt = activeServiceIds g2 dt"
    using sameStore_active [of g1 g2] h by blast
  ultimately show ?thesis
    by (simp add: set_getActiveTripsForToday)
qed

theorem resolver_deterministic_witness:
  "wf_store (exampleStore (Some exampleExceptions)) \<and> wf_store permutedStore \<and>
   sameStore (exampleStore (Some exampleExceptions)) permutedStore \<and>
   getActiveTripsForToday (exampleStore (Some exampleExceptions)) (mkDate 2024 1 6 6)
     = [''morning'', ''ab''] \<and>
   getActiveTripsForToday permutedStore (mkDate 2024 1 6 6) = [''ab'', ''morning''] \<and>
   set (getActiveTripsForToday (exampleStore (Some exampleExceptions)) (mkDate 2024 1 6 6))
     = set (getActiveTripsForToday (exampleStore (Some exampleExceptions)) (mkDate 2024 1 6 6)) \<and>
   set (getActiveTripsForToday (exampleStore (Some exampleExceptions)) (mkDate 2024 1 6 6))
     = set (getActiveTripsForToday permutedStore (mkDate 2024 1 6 6))"
proof -
  let ?g = "exampleStore (Some exampleExceptions)"
  have wf1: "wf_store ?g" and wf2: "wf_store permutedStore"
    by (simp_all add: wf_store_def wf_map_def store_defs)
  have perm: "sameStore ?g permutedStore"
    by (simp add: sameStore_def exampleStore_def permutedStore_def)
  have t1: "getActiveTripsForToday ?g (mkDate 2024 1 6 6) = [''morning'', ''ab'']"
    by (simp add: resolver_defs date_defs store_defs)
  have t2: "getActiveTripsForToday permutedStore (mkDate 2024 1 6 6) = [''ab'', ''morning'']"
    by (simp add: resolver_defs date_defs store_defs)
  have a: "set (getActiveTripsForToday ?g (mkDate 2024 1 6 6))
             = set (getActiveTripsForToday ?g (mkDate 2024 1 6 6))"
    by (rule resolver_deterministic) simp
  have b: "set (getActiveTripsForToday ?g (mkDate 2024 1 6 6))
             = set (getActiveTripsForToday permutedStore (mkDate 2024 1 6 6))"
    by (rule resolver_deterministic) (simp add: wf1 wf2 perm)
  from wf1 wf2 perm t1 t2 a b show ?thesis by blast
qed

end
